theory Spec2Isabelle
  imports Main "HOL-Library.Log_Nat"
begin

section \<open>img2bag: a shallow embedding of the converter\<close>

text \<open>
  The development follows the three source files \<^verbatim>\<open>utils.py\<close>,
  \<^verbatim>\<open>img2bag_converter.py\<close> and \<^verbatim>\<open>__main__.py\<close>.  Python values are modelled as
  follows: \<^verbatim>\<open>str\<close> as \<^typ>\<open>string\<close>, \<^verbatim>\<open>int\<close> as \<^typ>\<open>int\<close>, a finite \<^verbatim>\<open>float\<close>
  as the rational number it denotes, exceptions as values of a datatype carried in the
  left summand of a sum type.
\<close>

subsection \<open>Python strings\<close>

abbreviation slash :: char where
  "slash \<equiv> CHR ''/''"

text \<open>\<^verbatim>\<open>s.lstrip('/')\<close>, \<^verbatim>\<open>s.rstrip('/')\<close> and \<^verbatim>\<open>s.strip('/')\<close>.\<close>

definition lstrip :: "char \<Rightarrow> string \<Rightarrow> string" where
  "lstrip c s = dropWhile (\<lambda>x. x = c) s"

definition rstrip :: "char \<Rightarrow> string \<Rightarrow> string" where
  "rstrip c s = rev (dropWhile (\<lambda>x. x = c) (rev s))"

definition strip :: "char \<Rightarrow> string \<Rightarrow> string" where
  "strip c s = rstrip c (lstrip c s)"

text \<open>\<^verbatim>\<open>s.split(c)\<close> for a one-character separator: the result is never empty, and
  \<^verbatim>\<open>''.split('/')\<close> is \<^verbatim>\<open>['']\<close>.\<close>

fun split :: "char \<Rightarrow> string \<Rightarrow> string list" where
  "split c [] = [[]]"
| "split c (x # xs) =
     (if x = c then [] # split c xs
      else (case split c xs of
              [] \<Rightarrow> [[x]]
            | s # ss \<Rightarrow> (x # s) # ss))"

text \<open>\<^verbatim>\<open>c.join(parts)\<close>.\<close>

fun join :: "char \<Rightarrow> string list \<Rightarrow> string" where
  "join c [] = []"
| "join c [s] = s"
| "join c (s # t # ss) = s @ c # join c (t # ss)"

subsection \<open>\<^verbatim>\<open>pathlib.PurePath\<close> on a POSIX host\<close>

text \<open>
  \<^verbatim>\<open>posixpath.join(a, *p)\<close>: a component that starts with a slash discards everything
  collected so far; otherwise it is appended, with a slash in between unless the path is
  empty or already ends in one.
\<close>

fun posix_join :: "string \<Rightarrow> string list \<Rightarrow> string" where
  "posix_join path [] = path"
| "posix_join path (b # bs) =
     posix_join
       (if b \<noteq> [] \<and> hd b = slash then b
        else if path = [] \<or> last path = slash then path @ b
        else path @ slash # b) bs"

text \<open>
  \<^verbatim>\<open>posixpath.splitroot\<close> without the (always empty) drive: a relative path has no root,
  exactly two leading slashes are kept as the root \<^verbatim>\<open>//\<close>, any other number of leading
  slashes collapses into the root \<^verbatim>\<open>/\<close>.
\<close>

fun splitroot :: "string \<Rightarrow> string \<times> string" where
  "splitroot [] = ([], [])"
| "splitroot (a # p) =
     (if a \<noteq> slash then ([], a # p)
      else (case p of
              [] \<Rightarrow> ([slash], [])
            | b # q \<Rightarrow>
                if b \<noteq> slash then ([slash], p)
                else (case q of
                        [] \<Rightarrow> ([slash, slash], [])
                      | d # r \<Rightarrow> if d = slash then ([slash], p) else ([slash, slash], q))))"

text \<open>The components kept by the parser: neither empty nor \<^verbatim>\<open>.\<close>.\<close>

definition kept :: "string \<Rightarrow> bool" where
  "kept x \<longleftrightarrow> x \<noteq> [] \<and> x \<noteq> ''.''"

text \<open>
  \<^verbatim>\<open>str(PurePath(*args))\<close>: the arguments are joined, the root is split off, the rest is
  split at slashes and filtered, and the empty result is printed as \<^verbatim>\<open>.\<close>.
\<close>

definition purepath_str :: "string list \<Rightarrow> string" where
  "purepath_str args =
     (let path = (case args of [] \<Rightarrow> [] | a # p \<Rightarrow> posix_join a p);
          (root, rel) = splitroot path;
          tail = filter kept (split slash rel);
          s = root @ join slash tail
      in if s = [] then ''.'' else s)"

subsection \<open>\<^verbatim>\<open>utils.get_frame_id_from_topic\<close>\<close>

definition get_frame_id_from_topic :: "string \<Rightarrow> string" where
  "get_frame_id_from_topic topic =
     (let topic_parts = butlast (split slash (strip slash topic))
      in if topic_parts = [] then purepath_str (split slash (strip slash topic))
         else purepath_str topic_parts)"

text \<open>The frame identifier as the specification words it: strip, drop the last segment,
  and fall back to the stripped topic when nothing is left.\<close>

definition spec_frame_id :: "string \<Rightarrow> string" where
  "spec_frame_id topic =
     (let stripped = strip slash topic;
          parents = butlast (split slash stripped)
      in if parents = [] then stripped else join slash parents)"

subsection \<open>Python numbers\<close>

text \<open>
  A Python \<^verbatim>\<open>float\<close> is an IEEE 754 binary64 number.  A finite double is modelled as the
  rational it denotes, and every arithmetic operation as the exact operation followed by
  \<open>rnd\<close>, rounding to the nearest number with a 53-bit significand, ties to the even
  significand.  The exponent is not bounded: overflow to infinity and gradual underflow,
  which need magnitudes of \<open>2 ^ 1024\<close> and above or below \<open>2 ^ - 1022\<close>, are outside the
  model.
\<close>

definition round_half_even :: "rat \<Rightarrow> int" where
  "round_half_even x =
     (let n = \<lfloor>x\<rfloor>; d = x - of_int n
      in if d < 1 / 2 then n
         else if 1 / 2 < d then n + 1
         else if even n then n else n + 1)"

text \<open>The binary exponent of a non-zero rational: \<open>2 powi ilog2 x \<le> \<bar>x\<bar> < 2 powi (ilog2 x + 1)\<close>.\<close>

definition ilog2 :: "rat \<Rightarrow> int" where
  "ilog2 x =
     (let (p, q) = quotient_of \<bar>x\<bar>;
          k = bitlen p - bitlen q
      in if 2 powi k \<le> \<bar>x\<bar> then k else k - 1)"

definition rnd :: "rat \<Rightarrow> rat" where
  "rnd x =
     (if x = 0 then 0
      else let e = ilog2 x - 52
           in of_int (round_half_even (x / 2 powi e)) * 2 powi e)"

text \<open>\<^verbatim>\<open>float(i)\<close> for an \<^verbatim>\<open>int\<close>, as done implicitly when an \<^verbatim>\<open>int\<close> meets a \<^verbatim>\<open>float\<close> in
  an arithmetic operation.\<close>

definition float_of_int :: "int \<Rightarrow> rat" where
  "float_of_int i = rnd (of_int i)"

text \<open>\<^verbatim>\<open>int(x)\<close> for a \<^verbatim>\<open>float\<close>: truncation towards zero.\<close>

definition trunc :: "rat \<Rightarrow> int" where
  "trunc x = (if 0 \<le> x then \<lfloor>x\<rfloor> else - \<lfloor>- x\<rfloor>)"

text \<open>
  \<^verbatim>\<open>x % y\<close> on floats (CPython's \<^verbatim>\<open>float_rem\<close>, for \<open>y \<noteq> 0\<close>): the C function
  \<^verbatim>\<open>fmod\<close> is exact and has the sign of \<open>x\<close>; a non-zero remainder whose sign differs
  from that of \<open>y\<close> is moved by a floating-point addition of \<open>y\<close>.  The only divisor in
  the program is the literal \<^verbatim>\<open>1e9\<close>.
\<close>

definition fmod :: "rat \<Rightarrow> rat \<Rightarrow> rat" where
  "fmod x y = x - of_int (trunc (x / y)) * y"

definition float_rem :: "rat \<Rightarrow> rat \<Rightarrow> rat" where
  "float_rem x y =
     (let m = fmod x y
      in if m \<noteq> 0 \<and> ((y < 0) \<noteq> (m < 0)) then rnd (m + y) else m)"

text \<open>The literals \<^verbatim>\<open>1e9\<close> (an exact double) and \<^verbatim>\<open>1e-9\<close> (the double nearest to
  \<open>10\<^sup>-\<^sup>9\<close>).\<close>

definition lit_1e9 :: rat where
  "lit_1e9 = 1000000000"

definition lit_1em9 :: rat where
  "lit_1em9 = rnd (1 / 1000000000)"

text \<open>A value that the source annotates as \<^verbatim>\<open>float\<close> but that may arrive as an
  \<^verbatim>\<open>int\<close> (the command line passes the start time as a positive integer).\<close>

datatype pynum = PyInt int | PyFloat rat

fun as_float :: "pynum \<Rightarrow> rat" where
  "as_float (PyInt i) = float_of_int i"
| "as_float (PyFloat x) = x"

fun as_int :: "pynum \<Rightarrow> int" where
  "as_int (PyInt i) = i"
| "as_int (PyFloat x) = trunc x"

subsection \<open>\<^verbatim>\<open>utils.split_unix_timestamp\<close>\<close>

definition split_unix_timestamp :: "pynum \<Rightarrow> int \<times> int" where
  "split_unix_timestamp timestamp =
     (let sec = as_int timestamp;
          nsec = trunc (float_rem (rnd (as_float timestamp * lit_1e9)) lit_1e9)
      in (sec, nsec))"

subsection \<open>Exceptions\<close>

text \<open>The exceptions that occur in the program, each with its message.  A subclass is
  represented by the class the program catches it as (Pillow's \<^verbatim>\<open>UnidentifiedImageError\<close>
  is an \<^verbatim>\<open>OSError\<close>); \<open>OtherError\<close> stands for any exception of another class.\<close>

datatype exn =
    OSError string
  | SyntaxError string
  | UserWarning string
  | ValueError string
  | ZeroDivisionError string
  | OtherError string

fun message :: "exn \<Rightarrow> string" where
  "message (OSError m) = m"
| "message (SyntaxError m) = m"
| "message (UserWarning m) = m"
| "message (ValueError m) = m"
| "message (ZeroDivisionError m) = m"
| "message (OtherError m) = m"

text \<open>\<^verbatim>\<open>a / b\<close> on two \<^verbatim>\<open>int\<close>s (correctly rounded), and on two \<^verbatim>\<open>float\<close>s.\<close>

definition true_div :: "int \<Rightarrow> int \<Rightarrow> exn + rat" where
  "true_div a b =
     (if b = 0 then Inl (ZeroDivisionError ''division by zero'')
      else Inr (rnd (of_int a / of_int b)))"

definition float_div :: "rat \<Rightarrow> rat \<Rightarrow> exn + rat" where
  "float_div x y =
     (if y = 0 then Inl (ZeroDivisionError ''float division by zero'')
      else Inr (rnd (x / y)))"

subsection \<open>Images\<close>

text \<open>A decoded Pillow image: its size and its mode.  The pixel bytes are produced and
  consumed by Pillow and the serializer only and are left out.\<close>

record pil_image =
  width :: int
  height :: int
  mode :: string

text \<open>Modelled from the spec: \<^verbatim>\<open>Image.getbands\<close> is Pillow's, not part of the sources.  The
  specification fixes the bytes per pixel of the three supported modes (3, 4 and 1); every
  other mode is given its single-band form and is never asked for by the program.\<close>

definition getbands :: "string \<Rightarrow> string list" where
  "getbands m =
     (if m = ''RGB'' then [''R'', ''G'', ''B'']
      else if m = ''RGBA'' then [''R'', ''G'', ''B'', ''A'']
      else [m])"

text \<open>Modelled from the spec: \<^verbatim>\<open>Image.resize\<close> is Pillow's.  It keeps the mode, yields the
  requested size, and refuses a size with a dimension below one.\<close>

definition pil_resize :: "pil_image \<Rightarrow> int \<times> int \<Rightarrow> exn + pil_image" where
  "pil_resize img sz =
     (if fst sz < 1 \<or> snd sz < 1 then Inl (ValueError ''height and width must be > 0'')
      else Inr (img\<lparr>width := fst sz, height := snd sz\<rparr>))"

subsection \<open>\<^verbatim>\<open>utils.resize_image\<close>\<close>

text \<open>The size handed to Pillow (\<^verbatim>\<open>img_size\<close> in the source).\<close>

definition img_size :: "pil_image \<Rightarrow> int \<times> int \<Rightarrow> exn + int \<times> int" where
  "img_size img sz =
     (if fst sz \<le> 0 then
        (case true_div (width img * snd sz) (height img) of
           Inl e \<Rightarrow> Inl e
         | Inr q \<Rightarrow> Inr (trunc q, snd sz))
      else if snd sz \<le> 0 then
        (case true_div (height img * fst sz) (width img) of
           Inl e \<Rightarrow> Inl e
         | Inr q \<Rightarrow> Inr (fst sz, trunc q))
      else Inr sz)"

definition resize_image :: "pil_image \<Rightarrow> int \<times> int \<Rightarrow> exn + pil_image" where
  "resize_image img sz =
     (case img_size img sz of
        Inl e \<Rightarrow> Inl e
      | Inr target \<Rightarrow> pil_resize img target)"

subsection \<open>\<^verbatim>\<open>utils.get_flatten_calibration_matrices\<close>\<close>

text \<open>The numpy operations used: \<^verbatim>\<open>np.identity(n)\<close>, the assignment
  \<^verbatim>\<open>K[i, js] = vs\<close>, \<^verbatim>\<open>np.column_stack\<close> and \<^verbatim>\<open>flatten\<close> (row-major).\<close>

definition identity :: "nat \<Rightarrow> rat list list" where
  "identity n = map (\<lambda>i. map (\<lambda>j. if i = j then 1 else 0) [0..<n]) [0..<n]"

definition set_entries :: "rat list list \<Rightarrow> nat \<Rightarrow> nat list \<Rightarrow> rat list \<Rightarrow> rat list list" where
  "set_entries m i js vs = m[i := fold (\<lambda>(j, v) row. row[j := v]) (zip js vs) (m ! i)]"

definition column_stack :: "rat list list \<Rightarrow> rat list \<Rightarrow> rat list list" where
  "column_stack m col = map2 (\<lambda>row x. row @ [x]) m col"

definition flatten :: "rat list list \<Rightarrow> rat list" where
  "flatten m = concat m"

definition get_flatten_calibration_matrices ::
    "int \<times> int \<Rightarrow> exn + rat list \<times> rat list \<times> rat list \<times> rat list" where
  "get_flatten_calibration_matrices imgsz =
     (let d = replicate 5 0
      in case true_div (snd imgsz) (fst imgsz) of
           Inl e \<Rightarrow> Inl e
         | Inr aspect_ratio \<Rightarrow>
             (let K0 = identity 3;
                  K1 = set_entries K0 0 [0, 2]
                         [float_of_int (fst imgsz), rnd (of_int (fst imgsz) / 2)]
              in case float_div (float_of_int (snd imgsz)) aspect_ratio of
                   Inl e \<Rightarrow> Inl e
                 | Inr fy \<Rightarrow>
                     (let K = set_entries K1 1 [1, 2] [fy, rnd (of_int (snd imgsz) / 2)];
                          R = identity 3;
                          P = column_stack K (replicate 3 0)
                      in Inr (d, flatten K, flatten R, flatten P))))"

text \<open>The calibration formula as the specification words it: \<open>focal_y\<close> is the width
  divided by the aspect ratio.\<close>

definition spec_focal_y :: "int \<times> int \<Rightarrow> exn + rat" where
  "spec_focal_y imgsz =
     (case true_div (snd imgsz) (fst imgsz) of
        Inl e \<Rightarrow> Inl e
      | Inr aspect_ratio \<Rightarrow> float_div (float_of_int (fst imgsz)) aspect_ratio)"

subsection \<open>Messages, the bag writer and the file system\<close>

record header =
  stamp :: "int \<times> int"
  frame_id :: string

record image_msg =
  img_header :: header
  img_height :: int
  img_width :: int
  encoding :: string
  is_bigendian :: bool
  step :: int

record camera_info_msg =
  ci_header :: header
  ci_height :: int
  ci_width :: int
  distortion_model :: string
  ci_d :: "rat list"
  ci_k :: "rat list"
  ci_r :: "rat list"
  ci_p :: "rat list"

datatype ros_message = ImageMessage image_msg | CameraInfoMessage camera_info_msg

record topic_metadata =
  tm_name :: string
  tm_type :: string
  serialization_format :: string

text \<open>Modelled from the spec: \<^verbatim>\<open>enums.py\<close> is not among the sources; the converter's
  documentation names the two storage backends.\<close>

datatype storage_id = SQLITE3 | MCAP

text \<open>An entry of a directory listing: its absolute path, its name, whether it is a
  regular file, and what \<^verbatim>\<open>PIL.Image.open\<close> makes of it.\<close>

record fs_entry =
  entry_path :: string
  entry_name :: string
  entry_is_file :: bool
  entry_open :: "exn + pil_image"

datatype fs_access = ListDir string bool | OpenFile string

text \<open>
  Everything the program acts on: the bag writer (the storage it was opened on, the
  \<^verbatim>\<open>create_topic\<close> requests and the \<^verbatim>\<open>write\<close> calls, each in call order, a serialized
  message being represented by the message), the lines printed with \<^verbatim>\<open>rprint\<close>, the
  text written to the error stream, and the directory listings and file openings
  performed.
\<close>

record run_state =
  bag :: "(string \<times> storage_id) option"
  created :: "topic_metadata list"
  written :: "(string \<times> ros_message \<times> int) list"
  console :: "string list"
  stderr :: "string list"
  fs_log :: "fs_access list"

definition initial :: run_state where
  "initial = \<lparr>bag = None, created = [], written = [], console = [], stderr = [], fs_log = []\<rparr>"

definition create_topic :: "topic_metadata \<Rightarrow> run_state \<Rightarrow> run_state" where
  "create_topic tm st = st\<lparr>created := created st @ [tm]\<rparr>"

definition writer_write :: "string \<Rightarrow> ros_message \<Rightarrow> int \<Rightarrow> run_state \<Rightarrow> run_state" where
  "writer_write topic msg t st = st\<lparr>written := written st @ [(topic, msg, t)]\<rparr>"

definition rprint :: "string \<Rightarrow> run_state \<Rightarrow> run_state" where
  "rprint line st = st\<lparr>console := console st @ [line]\<rparr>"

definition access :: "fs_access \<Rightarrow> run_state \<Rightarrow> run_state" where
  "access a st = st\<lparr>fs_log := fs_log st @ [a]\<rparr>"

text \<open>
  The collaborators outside the repository: the two directory listings of \<^verbatim>\<open>pathlib\<close>
  and \<^verbatim>\<open>natsort.natsorted\<close>, which is handed the key function of the source
  (its \<^verbatim>\<open>alg\<close> argument is constant).
\<close>

record env =
  iterdir :: "string \<Rightarrow> fs_entry list"
  rglob :: "string \<Rightarrow> fs_entry list"
  natsorted :: "(fs_entry \<Rightarrow> string \<times> string) \<Rightarrow> fs_entry list \<Rightarrow> fs_entry list"

subsection \<open>\<^verbatim>\<open>img2bag_converter.Img2BagConverter\<close>\<close>

record converter =
  image_topic_pairs :: "(string \<times> string) list"
  verbose :: bool
  camera_info_topic :: string
  imgsz :: "(int \<times> int) option"
  start_timestamp :: pynum
  rate :: rat
  recursive_dirs :: bool
  storage :: storage_id


definition register_topics :: "converter \<Rightarrow> string \<Rightarrow> string \<Rightarrow> run_state \<Rightarrow> (string \<times> string) \<times> run_state" where
  "register_topics cv fid img_topic st =
     (let camera_info_topic_name = purepath_str [slash # fid, camera_info_topic cv];
          image_topic_name = slash # lstrip slash img_topic;
          st1 = create_topic \<lparr>tm_name = image_topic_name, tm_type = ''sensor_msgs/msg/Image'',
                               serialization_format = ''cdr''\<rparr> st;
          st2 = create_topic \<lparr>tm_name = camera_info_topic_name,
                               tm_type = ''sensor_msgs/msg/CameraInfo'',
                               serialization_format = ''cdr''\<rparr> st1
      in ((image_topic_name, camera_info_topic_name), st2))"

definition image_encoding_map :: "(string \<times> string) list" where
  "image_encoding_map = [(''RGB'', ''rgb8''), (''RGBA'', ''rgba8''), (''L'', ''mono8'')]"

definition unsupported_mode_msg :: "string \<Rightarrow> string \<Rightarrow> string" where
  "unsupported_mode_msg m file_path =
     ''Unsupported image mode '' @ [CHR 0x27] @ m @ [CHR 0x27] @ '' for file '' @
     [CHR 0x27] @ file_path @ [CHR 0x27] @ ''. Skipping...''"

definition create_image_camera_info_messages ::
    "converter \<Rightarrow> fs_entry \<Rightarrow> header \<Rightarrow> exn + image_msg \<times> camera_info_msg" where
  "create_image_camera_info_messages cv file hdr =
     (case entry_open file of
        Inl e \<Rightarrow> Inl e
      | Inr img_org \<Rightarrow>
          (case (case imgsz cv of None \<Rightarrow> Inr img_org | Some sz \<Rightarrow> resize_image img_org sz) of
             Inl e \<Rightarrow> Inl e
           | Inr img \<Rightarrow>
               (case map_of image_encoding_map (mode img) of
                  None \<Rightarrow> Inl (UserWarning (unsupported_mode_msg (mode img) (entry_path file)))
                | Some enc \<Rightarrow>
                    (let img_msg = \<lparr>img_header = hdr, img_height = height img,
                                     img_width = width img, encoding = enc, is_bigendian = False,
                                     step = width img * int (length (getbands (mode img)))\<rparr>
                     in case get_flatten_calibration_matrices (width img, height img) of
                          Inl e \<Rightarrow> Inl e
                        | Inr (d, k, r, p) \<Rightarrow>
                            Inr (img_msg,
                                 \<lparr>ci_header = hdr, ci_height = height img, ci_width = width img,
                                  distortion_model = ''plumb_bob'',
                                  ci_d = d, ci_k = k, ci_r = r, ci_p = p\<rparr>)))))"

text \<open>The exceptions caught by the loop: \<^verbatim>\<open>except (OSError, SyntaxError, UserWarning)\<close>.\<close>

fun caught :: "exn \<Rightarrow> bool" where
  "caught (OSError m) = True"
| "caught (SyntaxError m) = True"
| "caught (UserWarning m) = True"
| "caught e = False"

text \<open>The key handed to \<^verbatim>\<open>natsorted\<close>: the absolute path with every blank replaced by an
  underscore, and the file name.\<close>

definition sort_key :: "fs_entry \<Rightarrow> string \<times> string" where
  "sort_key f = (map (\<lambda>c. if c = CHR '' '' then CHR ''_'' else c) (entry_path f), entry_name f)"

definition list_files :: "env \<Rightarrow> converter \<Rightarrow> string \<Rightarrow> fs_entry list" where
  "list_files ev cv image_dir =
     natsorted ev sort_key
       (filter entry_is_file
          (if recursive_dirs cv then rglob ev image_dir else iterdir ev image_dir))"

text \<open>The cursor that follows a written file: \<^verbatim>\<open>(sec + 1 / rate) + nsec * 1e-9\<close>, split
  again; \<open>dt\<close> is the quotient \<^verbatim>\<open>1 / rate\<close>.  The division fails for a rate of zero.\<close>

definition advance :: "rat \<Rightarrow> int \<times> int \<Rightarrow> int \<times> int" where
  "advance dt cur =
     split_unix_timestamp
       (PyFloat (rnd (rnd (float_of_int (fst cur) + dt) +
                      rnd (float_of_int (snd cur) * lit_1em9))))"

definition next_cursor :: "rat \<Rightarrow> int \<times> int \<Rightarrow> exn + int \<times> int" where
  "next_cursor rt cur =
     (case float_div 1 rt of
        Inl e \<Rightarrow> Inl e
      | Inr dt \<Rightarrow> Inr (advance dt cur))"

text \<open>The time a record is written at: \<^verbatim>\<open>int(sec * 1e9 + nsec)\<close>.\<close>

definition write_time :: "int \<times> int \<Rightarrow> int" where
  "write_time cur = trunc (rnd (rnd (float_of_int (fst cur) * lit_1e9) + float_of_int (snd cur)))"

text \<open>
  The loop over the sorted files of one directory.  Its state is the cursor \<open>(sec, nsec)\<close>
  and the run state; an exception that is not caught ends the loop and is returned with
  the state reached.
\<close>

fun convert_files ::
    "converter \<Rightarrow> string \<times> string \<Rightarrow> string \<Rightarrow> fs_entry list \<Rightarrow> int \<times> int \<Rightarrow> run_state \<Rightarrow>
       (exn + int \<times> int) \<times> run_state" where
  "convert_files cv names fid [] cur st = (Inr cur, st)"
| "convert_files cv names fid (file # files) cur st =
     (let st1 = (if verbose cv
                 then rprint (''Parsing: '' @ [CHR 0x27] @ entry_path file @ [CHR 0x27]) st
                 else st);
          hdr = \<lparr>stamp = cur, frame_id = fid\<rparr>;
          st2 = access (OpenFile (entry_path file)) st1
      in case create_image_camera_info_messages cv file hdr of
           Inl e \<Rightarrow>
             if caught e
             then convert_files cv names fid files cur
                    (rprint (''[yellow]WARNING: '' @ [CHR 0x27] @ message e @ [CHR 0x27] @
                             ''[/yellow]'') st2)
             else (Inl e, st2)
         | Inr (img_msg, camera_info_msg) \<Rightarrow>
             (let timestamp = write_time cur;
                  st3 = writer_write (fst names) (ImageMessage img_msg) timestamp st2;
                  st4 = writer_write (snd names) (CameraInfoMessage camera_info_msg) timestamp st3
              in case next_cursor (rate cv) cur of
                   Inl e \<Rightarrow> (Inl e, st4)
                 | Inr cur' \<Rightarrow> convert_files cv names fid files cur' st4))"

definition convert_image_to_topic ::
    "env \<Rightarrow> converter \<Rightarrow> string \<Rightarrow> string \<Rightarrow> run_state \<Rightarrow> (exn + int \<times> int) \<times> run_state" where
  "convert_image_to_topic ev cv image_dir topic st =
     (let fid = get_frame_id_from_topic topic;
          (names, st1) = register_topics cv fid topic st;
          cur = split_unix_timestamp (start_timestamp cv);
          st2 = access (ListDir image_dir (recursive_dirs cv)) st1;
          image_files = list_files ev cv image_dir
      in convert_files cv names fid image_files cur st2)"

fun convert_pairs ::
    "env \<Rightarrow> converter \<Rightarrow> (string \<times> string) list \<Rightarrow> run_state \<Rightarrow> (exn + unit) \<times> run_state" where
  "convert_pairs ev cv [] st = (Inr (), st)"
| "convert_pairs ev cv ((image_dir, topic) # pairs) st =
     (case convert_image_to_topic ev cv image_dir topic st of
        (Inl e, st1) \<Rightarrow> (Inl e, st1)
      | (Inr cur, st1) \<Rightarrow> convert_pairs ev cv pairs st1)"

definition convert :: "env \<Rightarrow> converter \<Rightarrow> string \<Rightarrow> run_state \<Rightarrow> (exn + unit) \<times> run_state" where
  "convert ev cv out st =
     (case convert_pairs ev cv (image_topic_pairs cv) (st\<lparr>bag := Some (out, storage cv)\<rparr>) of
        (Inl e, st1) \<Rightarrow> (Inl e, st1)
      | (Inr u, st1) \<Rightarrow>
          (Inr (),
           rprint ([CHR 0x0A] @ ''[bold green]Saved ROS bag file to '' @ [CHR 0x27] @ out @
                   [CHR 0x27] @ ''.[/bold green]'') st1\<lparr>bag := None\<rparr>))"

subsection \<open>\<^verbatim>\<open>__main__\<close>: the command line\<close>

text \<open>
  The options as \<^verbatim>\<open>jsonargparse\<close> delivers them.  Parsing and the validation of the option
  types happen inside that library; of the types, the two restricted string patterns
  declared in \<^verbatim>\<open>_parse_arguments\<close> are modelled below.
\<close>

record args =
  arg_directories :: "string list"
  arg_topics :: "string list"
  arg_camera_info_topic :: string
  arg_image_size :: "string option"
  arg_timestamp :: int
  arg_rate :: rat
  arg_recursive_dirs :: bool
  arg_output :: string
  arg_format :: storage_id

text \<open>Where \<^verbatim>\<open>$\<close> matches: at the end of the string, or before a final newline.\<close>

definition at_end :: "string \<Rightarrow> bool" where
  "at_end s \<longleftrightarrow> s = [] \<or> s = [CHR 0x0A]"

definition is_digit :: "char \<Rightarrow> bool" where
  "is_digit c \<longleftrightarrow> c \<in> set ''0123456789''"

definition is_topic_char :: "char \<Rightarrow> bool" where
  "is_topic_char c \<longleftrightarrow> c \<in> set ''ABCDEFGHIJKLMNOPQRSTUVWXYZabcdefghijklmnopqrstuvwxyz/_''"

text \<open>\<^verbatim>\<open>CameraInfoTopicType\<close>: the pattern \<^verbatim>\<open>^[A-Za-z/_]+$\<close>.\<close>

definition camera_info_topic_type :: "string \<Rightarrow> bool" where
  "camera_info_topic_type s \<longleftrightarrow>
     takeWhile is_topic_char s \<noteq> [] \<and> at_end (dropWhile is_topic_char s)"

text \<open>The two lookaheads \<^verbatim>\<open>(?!0$)\<close> and \<^verbatim>\<open>(?!0[x,])\<close>.\<close>

definition zero_then_end :: "string \<Rightarrow> bool" where
  "zero_then_end s \<longleftrightarrow> (case s of [] \<Rightarrow> False | c # r \<Rightarrow> c = CHR ''0'' \<and> at_end r)"

definition is_sep :: "char \<Rightarrow> bool" where
  "is_sep c \<longleftrightarrow> c = CHR ''x'' \<or> c = CHR '',''"

definition zero_then_sep :: "string \<Rightarrow> bool" where
  "zero_then_sep s \<longleftrightarrow>
     (case s of c # d # r \<Rightarrow> c = CHR ''0'' \<and> is_sep d | _ \<Rightarrow> False)"

text \<open>\<^verbatim>\<open>ImageSizeType\<close>: the pattern \<^verbatim>\<open>^(?!0$)(?!0[x,])\d+(?:[x,](?!0$)\d+)?$\<close>, on ASCII
  digits.\<close>

definition image_size_type :: "string \<Rightarrow> bool" where
  "image_size_type s \<longleftrightarrow>
     \<not> zero_then_end s \<and> \<not> zero_then_sep s \<and>
     takeWhile is_digit s \<noteq> [] \<and>
     (let rest = dropWhile is_digit s
      in at_end rest \<or>
         (case rest of
            [] \<Rightarrow> False
          | c # r \<Rightarrow>
              is_sep c \<and> \<not> zero_then_end r \<and> takeWhile is_digit r \<noteq> [] \<and>
              at_end (dropWhile is_digit r)))"




text \<open>\<^verbatim>\<open>re.split(r'[x,]', s)\<close>.\<close>

fun re_split :: "string \<Rightarrow> string list" where
  "re_split [] = [[]]"
| "re_split (x # xs) =
     (if is_sep x then [] # re_split xs
      else (case re_split xs of
              [] \<Rightarrow> [[x]]
            | t # ts \<Rightarrow> (x # t) # ts))"

text \<open>\<^verbatim>\<open>int(s)\<close> for a string of ASCII digits with an optional sign; anything else is
  reported as a \<^verbatim>\<open>ValueError\<close>.\<close>

definition digit_value :: "char \<Rightarrow> int" where
  "digit_value c = int (length (takeWhile (\<lambda>d. d \<noteq> c) ''0123456789''))"

definition int_of_digits :: "string \<Rightarrow> int" where
  "int_of_digits ds = foldl (\<lambda>acc c. 10 * acc + digit_value c) 0 ds"

definition py_int :: "string \<Rightarrow> exn + int" where
  "py_int s =
     (let body = (if s \<noteq> [] \<and> (hd s = CHR ''-'' \<or> hd s = CHR ''+'') then tl s else s)
      in if body = [] \<or> \<not> list_all is_digit body then
           Inl (ValueError (''invalid literal for int() with base 10: '' @ [CHR 0x27] @ s @ [CHR 0x27]))
         else if hd s = CHR ''-'' then Inr (- int_of_digits body)
         else Inr (int_of_digits body))"

fun map_exn :: "('a \<Rightarrow> exn + 'b) \<Rightarrow> 'a list \<Rightarrow> exn + 'b list" where
  "map_exn f [] = Inr []"
| "map_exn f (x # xs) =
     (case f x of
        Inl e \<Rightarrow> Inl e
      | Inr y \<Rightarrow> (case map_exn f xs of Inl e \<Rightarrow> Inl e | Inr ys \<Rightarrow> Inr (y # ys)))"

definition parse_image_size :: "string option \<Rightarrow> exn + (int \<times> int) option" where
  "parse_image_size image_size =
     (case image_size of
        None \<Rightarrow> Inr None
      | Some s \<Rightarrow>
          if s = [] then Inr None
          else (case map_exn py_int (re_split s) of
                  Inl e \<Rightarrow> Inl e
                | Inr sz \<Rightarrow>
                    (case sz of
                       [] \<Rightarrow> Inl (OtherError ''tuple index out of range'')
                     | [a] \<Rightarrow> Inr (Some (a, 0))
                     | a # b # rest \<Rightarrow> Inr (Some (a, b)))))"



subsection \<open>Natural sorting\<close>

text \<open>
  Modelled from the spec: \<^verbatim>\<open>natsort.natsorted\<close> belongs to a third-party library and is
  not among the sources; only its call, with the key function above, is.  Section 4.1 of
  the specification gives its rule: paths are compared component by component (the path
  separator is a boundary), without regard to case; inside a component a run of digits is
  compared as the number it denotes; when two normalized paths compare equal, the
  unmodified file names decide.  (What the library's flags do with signs, decimal points
  and exponents is not described there and not modelled.)
\<close>

datatype chunk = Txt string | Num nat

datatype ordering = LT | EQ | GT

definition cmp_nat :: "nat \<Rightarrow> nat \<Rightarrow> ordering" where
  "cmp_nat a b = (if a < b then LT else if a = b then EQ else GT)"

fun cmp_list :: "('a \<Rightarrow> 'a \<Rightarrow> ordering) \<Rightarrow> 'a list \<Rightarrow> 'a list \<Rightarrow> ordering" where
  "cmp_list cmp [] [] = EQ"
| "cmp_list cmp [] (y # ys) = LT"
| "cmp_list cmp (x # xs) [] = GT"
| "cmp_list cmp (x # xs) (y # ys) =
     (case cmp x y of EQ \<Rightarrow> cmp_list cmp xs ys | LT \<Rightarrow> LT | GT \<Rightarrow> GT)"

definition cmp_string :: "string \<Rightarrow> string \<Rightarrow> ordering" where
  "cmp_string = cmp_list (\<lambda>c d. cmp_nat (of_char c) (of_char d))"

text \<open>A number and a text never meet at the same position of two keys, since every key
  starts with a (possibly empty) text and alternates.\<close>

fun cmp_chunk :: "chunk \<Rightarrow> chunk \<Rightarrow> ordering" where
  "cmp_chunk (Num a) (Num b) = cmp_nat a b"
| "cmp_chunk (Txt a) (Txt b) = cmp_string a b"
| "cmp_chunk (Num a) (Txt b) = LT"
| "cmp_chunk (Txt a) (Num b) = GT"

definition lower :: "char \<Rightarrow> char" where
  "lower c =
     (case map_of (zip ''ABCDEFGHIJKLMNOPQRSTUVWXYZ'' ''abcdefghijklmnopqrstuvwxyz'') c of
        None \<Rightarrow> c
      | Some l \<Rightarrow> l)"









subsection \<open>Notions used to state the claims\<close>

text \<open>Two run states with the same bag: the same storage, the same \<^verbatim>\<open>create_topic\<close>
  requests, the same records written.\<close>

definition same_bag :: "run_state \<Rightarrow> run_state \<Rightarrow> bool" where
  "same_bag s t \<longleftrightarrow> bag s = bag t \<and> created s = created t \<and> written s = written t"

text \<open>The state in which the loop goes on after it has skipped a file for the caught
  exception \<open>e\<close>: the file was announced (when verbose) and opened, and the warning was
  printed.\<close>

definition skip_state :: "converter \<Rightarrow> fs_entry \<Rightarrow> exn \<Rightarrow> run_state \<Rightarrow> run_state" where
  "skip_state cv file e st =
     rprint (''[yellow]WARNING: '' @ [CHR 0x27] @ message e @ [CHR 0x27] @ ''[/yellow]'')
       (access (OpenFile (entry_path file))
          (if verbose cv
           then rprint (''Parsing: '' @ [CHR 0x27] @ entry_path file @ [CHR 0x27]) st
           else st))"

text \<open>The header stamps of the image records in the bag, in the order written.\<close>

fun image_stamp :: "string \<times> ros_message \<times> int \<Rightarrow> (int \<times> int) list" where
  "image_stamp (topic, ImageMessage m, t) = [stamp (img_header m)]"
| "image_stamp (topic, CameraInfoMessage m, t) = []"

definition image_stamps :: "run_state \<Rightarrow> (int \<times> int) list" where
  "image_stamps st = concat (map image_stamp (written st))"







text \<open>A plain name: split at slashes, it has no empty segment and no \<^verbatim>\<open>.\<close> segment.  Such
  a name is not empty and has no leading, trailing or doubled slash.\<close>

definition plain :: "string \<Rightarrow> bool" where
  "plain s \<longleftrightarrow> list_all kept (split slash s)"

text \<open>A small configuration and three directory entries, used to instantiate the
  theorems: a decodable RGB image, a decodable image of an unsupported mode, and a file that
  Pillow cannot identify.\<close>

definition example_converter :: converter where
  "example_converter =
     \<lparr>image_topic_pairs = [(''/data/left'', ''/cam/left''), (''/data/right'', ''/cam/right'')],
      verbose = False, camera_info_topic = ''camera_info'', imgsz = None,
      start_timestamp = PyInt 1, rate = 60, recursive_dirs = False, storage = MCAP\<rparr>"

definition rgb_file :: fs_entry where
  "rgb_file =
     \<lparr>entry_path = ''/data/left/img1.png'', entry_name = ''img1.png'', entry_is_file = True,
      entry_open = Inr \<lparr>width = 4, height = 2, mode = ''RGB''\<rparr>\<rparr>"

definition cmyk_file :: fs_entry where
  "cmyk_file =
     \<lparr>entry_path = ''/data/left/img2.tif'', entry_name = ''img2.tif'', entry_is_file = True,
      entry_open = Inr \<lparr>width = 4, height = 2, mode = ''CMYK''\<rparr>\<rparr>"

definition broken_file :: fs_entry where
  "broken_file =
     \<lparr>entry_path = ''/data/left/notes.txt'', entry_name = ''notes.txt'', entry_is_file = True,
      entry_open = Inl (OSError ''cannot identify image file'')\<rparr>"

definition example_env :: env where
  "example_env =
     \<lparr>iterdir = (\<lambda>d. if d = ''/data/left'' then [cmyk_file, rgb_file] else []),
      rglob = (\<lambda>d. []),
      natsorted = (\<lambda>key files. files)\<rparr>"



text \<open>How a list of path components is printed: joined by slashes, and \<^verbatim>\<open>.\<close> when there
  is none.\<close>

definition render :: "string list \<Rightarrow> string" where
  "render segs = (if segs = [] then ''.'' else join slash segs)"

text \<open>A relative path: empty, or not starting with a slash.\<close>

definition rel_path :: "string \<Rightarrow> bool" where
  "rel_path p \<longleftrightarrow> p = [] \<or> hd p \<noteq> slash"

section \<open>Lemmas\<close>

subsection \<open>Splitting and joining\<close>

lemma split_not_Nil [simp]: "split c s \<noteq> []"
  by (induction s) (auto split: list.splits)

lemma split_free: "c \<notin> set s \<Longrightarrow> split c s = [s]"
  by (induction s) auto

lemma split_append_sep: "split c (a @ c # b) = split c a @ split c b"
proof (induction a)
  case Nil
  show ?case by simp
next
  case (Cons x a)
  show ?case
  proof (cases "x = c")
    case True
    with Cons show ?thesis by simp
  next
    case False
    obtain s ss where s: "split c a = s # ss"
      by (cases "split c a") auto
    with False Cons show ?thesis by simp
  qed
qed

lemma split_segments_free: "x \<in> set (split c s) \<Longrightarrow> c \<notin> set x"
proof (induction s arbitrary: x)
  case Nil
  then show ?case by simp
next
  case (Cons a s)
  obtain t ts where t: "split c s = t # ts"
    by (cases "split c s") auto
  from Cons t show ?case
    by (auto split: if_splits)
qed

lemma join_split: "join c (split c s) = s"
proof (induction s)
  case Nil
  show ?case by simp
next
  case (Cons x s)
  obtain t ts where t: "split c s = t # ts"
    by (cases "split c s") auto
  show ?case
  proof (cases "x = c")
    case True
    with Cons t show ?thesis by simp
  next
    case False
    with Cons t show ?thesis by (cases ts) auto
  qed
qed

lemma join_Cons: "ss \<noteq> [] \<Longrightarrow> join c (s # ss) = s @ c # join c ss"
  by (cases ss) auto

lemma join_append: "xs \<noteq> [] \<Longrightarrow> ys \<noteq> [] \<Longrightarrow> join c (xs @ ys) = join c xs @ c # join c ys"
proof (induction xs)
  case Nil
  then show ?case by simp
next
  case (Cons x xs)
  show ?case
  proof (cases "xs = []")
    case True
    with Cons.prems show ?thesis by (simp add: join_Cons)
  next
    case False
    with Cons show ?thesis by (simp add: join_Cons)
  qed
qed

lemma split_join: "ss \<noteq> [] \<Longrightarrow> \<forall>s \<in> set ss. c \<notin> set s \<Longrightarrow> split c (join c ss) = ss"
proof (induction ss)
  case Nil
  then show ?case by simp
next
  case (Cons s ss)
  show ?case
  proof (cases "ss = []")
    case True
    with Cons.prems show ?thesis by (simp add: split_free)
  next
    case False
    with Cons have "split c (join c ss) = ss" by simp
    with False Cons.prems show ?thesis
      by (simp add: join_Cons split_append_sep split_free)
  qed
qed

subsection \<open>Printing a joined path\<close>

lemma splitroot_rel: "rel_path p \<Longrightarrow> splitroot p = ([], p)"
  by (cases p) (auto simp: rel_path_def)

lemma free_not_hd: "slash \<notin> set b \<Longrightarrow> \<not> (b \<noteq> [] \<and> hd b = slash)"
  by (cases b) auto

lemma posix_join_rel:
  "rel_path path \<Longrightarrow> \<forall>b \<in> set bs. slash \<notin> set b \<Longrightarrow> rel_path (posix_join path bs)"
proof (induction bs arbitrary: path)
  case Nil
  then show ?case by simp
next
  case (Cons b bs)
  have b: "slash \<notin> set b" using Cons.prems by simp
  have "rel_path (if path = [] \<or> last path = slash then path @ b else path @ slash # b)"
    using Cons.prems(1) b by (cases path; cases b) (auto simp: rel_path_def)
  with Cons b show ?case by (simp add: free_not_hd)
qed

lemma kept_split_snoc: "filter kept (split slash (p @ [slash])) = filter kept (split slash p)"
  using split_append_sep [of slash p "[]"] by (simp add: kept_def)

lemma posix_join_kept:
  "\<forall>b \<in> set bs. slash \<notin> set b \<Longrightarrow>
     filter kept (split slash (posix_join path bs)) = filter kept (split slash path) @ filter kept bs"
proof (induction bs arbitrary: path)
  case Nil
  then show ?case by simp
next
  case (Cons b bs)
  have b: "slash \<notin> set b" using Cons.prems by simp
  let ?p = "if path = [] \<or> last path = slash then path @ b else path @ slash # b"
  have step: "filter kept (split slash ?p) = filter kept (split slash path) @ filter kept [b]"
  proof (cases "path = []")
    case True
    with b show ?thesis by (simp add: split_free kept_def)
  next
    case False
    show ?thesis
    proof (cases "last path = slash")
      case True
      with False obtain q where q: "path = q @ [slash]"
        by (metis append_butlast_last_id)
      have "split slash (q @ slash # b) = split slash q @ [b]"
        using b by (simp add: split_append_sep split_free)
      with q True False show ?thesis
        using kept_split_snoc [of q] by simp
    next
      case no_slash: False
      with False b show ?thesis by (simp add: split_append_sep split_free)
    qed
  qed
  have "posix_join path (b # bs) = posix_join ?p bs"
    using b by (simp add: free_not_hd)
  with Cons b step show ?case by simp
qed

lemma join_eq_Nil: "join c ss = [] \<longleftrightarrow> (\<forall>s \<in> set ss. s = []) \<and> length ss \<le> 1"
  by (induction c ss rule: join.induct) auto

lemma join_kept_Nil: "join slash (filter kept ss) = [] \<longleftrightarrow> filter kept ss = []"
proof
  assume "join slash (filter kept ss) = []"
  then have "\<forall>s \<in> set (filter kept ss). s = []" by (simp add: join_eq_Nil)
  then show "filter kept ss = []"
    by (cases "filter kept ss") (auto simp: kept_def dest: filter_eq_ConsD)
qed simp

lemma purepath_str_free:
  assumes "\<forall>b \<in> set (a # bs). slash \<notin> set b"
  shows "purepath_str (a # bs) = render (filter kept (a # bs))"
proof -
  have a: "slash \<notin> set a" and bs: "\<forall>b \<in> set bs. slash \<notin> set b"
    using assms by simp_all
  have "rel_path a" using a by (cases a) (auto simp: rel_path_def)
  then have r: "splitroot (posix_join a bs) = ([], posix_join a bs)"
    using bs by (simp add: posix_join_rel splitroot_rel)
  have k: "filter kept (split slash (posix_join a bs)) = filter kept (a # bs)"
    using posix_join_kept [OF bs, of a] a by (simp add: split_free)
  show ?thesis
    unfolding purepath_str_def render_def
    using r k join_kept_Nil [of "a # bs"] by (simp del: filter.simps)
qed

subsection \<open>The frame identifier\<close>

lemma frame_id_render:
  "get_frame_id_from_topic t =
     (let segs = split slash (strip slash t)
      in render (filter kept (if butlast segs = [] then segs else butlast segs)))"
proof -
  let ?segs = "split slash (strip slash t)"
  have free: "\<forall>b \<in> set ?segs. slash \<notin> set b"
    using split_segments_free by blast
  then have free': "\<forall>b \<in> set (butlast ?segs). slash \<notin> set b"
    by (meson in_set_butlastD)
  obtain s ss where segs: "?segs = s # ss"
    by (cases ?segs) auto
  show ?thesis
  proof (cases "butlast ?segs = []")
    case True
    have "purepath_str ?segs = render (filter kept ?segs)"
      using free purepath_str_free [of s ss] segs by simp
    with True show ?thesis
      by (simp add: get_frame_id_from_topic_def Let_def)
  next
    case False
    then obtain a bs where b: "butlast ?segs = a # bs"
      by (cases "butlast ?segs") auto
    have "purepath_str (butlast ?segs) = render (filter kept (butlast ?segs))"
      using free' purepath_str_free [of a bs] b by simp
    with False show ?thesis
      by (simp add: get_frame_id_from_topic_def Let_def)
  qed
qed

lemma filter_kept_id: "list_all kept xs \<Longrightarrow> filter kept xs = xs"
  by (induction xs) auto

lemma frame_id_spec:
  assumes "list_all kept (split slash (strip slash t))"
  shows "get_frame_id_from_topic t = spec_frame_id t"
proof -
  let ?segs = "split slash (strip slash t)"
  show ?thesis
  proof (cases "butlast ?segs = []")
    case True
    then have "render (filter kept ?segs) = join slash ?segs"
      using assms by (simp add: filter_kept_id render_def)
    with True show ?thesis
      by (simp add: frame_id_render spec_frame_id_def Let_def join_split)
  next
    case False
    have "list_all kept (butlast ?segs)"
      using assms by (metis in_set_butlastD list_all_iff)
    with False have "render (filter kept (butlast ?segs)) = join slash (butlast ?segs)"
      by (simp add: filter_kept_id render_def)
    with False show ?thesis
      by (simp add: frame_id_render spec_frame_id_def Let_def)
  qed
qed

subsection \<open>Rounding to a double\<close>

lemma two_powi_pos [simp]: "0 < (2::rat) powi e"
  by (simp add: zero_less_power_int)

lemma two_powi_not_le [simp]: "\<not> (2::rat) powi e \<le> 0"
  by (simp add: not_le)

lemma two_powi_not_less [simp]: "\<not> (2::rat) powi e < 0"
  by (simp add: not_less less_imp_le)

lemma two_powi_Suc: "(2::rat) powi (e + 1) = 2 * 2 powi e"
  by (simp add: power_int_add)

lemma bitlen_powi_bounds:
  assumes "0 < a"
  shows "(2::rat) powi (bitlen a - 1) \<le> of_int a" and "of_int a < (2::rat) powi bitlen a"
proof -
  have ge1: "1 \<le> bitlen a"
    using assms bitlen_eq_zero_iff [of a] bitlen_nonneg [of a] by linarith
  have b: "2 ^ nat (bitlen a - 1) \<le> a" "a < 2 ^ nat (bitlen a)"
    using bitlen_bounds [OF assms] by simp_all
  have "(2::rat) powi (bitlen a - 1) = 2 ^ nat (bitlen a - 1)"
    using ge1 by (simp add: power_int_nonneg_exp)
  also have "\<dots> = of_int (2 ^ nat (bitlen a - 1))" by simp
  also have "\<dots> \<le> of_int a" using b(1) by (simp only: of_int_le_iff)
  finally show "(2::rat) powi (bitlen a - 1) \<le> of_int a" .
  have "(of_int a :: rat) < of_int (2 ^ nat (bitlen a))" using b(2) by (simp only: of_int_less_iff)
  also have "\<dots> = 2 ^ nat (bitlen a)" by simp
  also have "\<dots> = (2::rat) powi bitlen a"
    using ge1 by (simp add: power_int_nonneg_exp)
  finally show "of_int a < (2::rat) powi bitlen a" .
qed

lemma ilog2_bounds:
  assumes "x \<noteq> 0"
  shows "2 powi ilog2 x \<le> \<bar>x\<bar>" and "\<bar>x\<bar> < 2 powi (ilog2 x + 1)"
proof -
  obtain p q where pq: "quotient_of \<bar>x\<bar> = (p, q)"
    by (cases "quotient_of \<bar>x\<bar>") auto
  have q: "0 < q" using pq by (rule quotient_of_denom_pos)
  have x: "\<bar>x\<bar> = of_int p / of_int q" using pq by (rule quotient_of_div)
  have "0 < \<bar>x\<bar>" using assms by simp
  with x q have p: "0 < p" by (simp add: zero_less_divide_iff)
  define k where "k = bitlen p - bitlen q"
  have il: "ilog2 x = (if 2 powi k \<le> \<bar>x\<bar> then k else k - 1)"
    by (simp add: ilog2_def pq k_def)
  have qpos: "0 < (of_int q :: rat)" using q by simp
  have "of_int p < (2::rat) powi bitlen p" using p by (rule bitlen_powi_bounds)
  moreover have "(2::rat) powi (bitlen q - 1) \<le> of_int q" using q by (rule bitlen_powi_bounds)
  ultimately have "of_int p * (2::rat) powi (bitlen q - 1) < 2 powi bitlen p * of_int q"
    using qpos p by (intro mult_less_le_imp_less) (simp_all add: less_imp_le)
  then have "\<bar>x\<bar> * (2::rat) powi (bitlen q - 1) < 2 powi bitlen p"
    using qpos by (simp add: x field_simps)
  then have "\<bar>x\<bar> < 2 powi bitlen p / 2 powi (bitlen q - 1)"
    by (simp add: pos_less_divide_eq)
  also have "\<dots> = 2 powi (k + 1)"
    by (simp add: k_def power_int_diff [symmetric] algebra_simps)
  finally have up: "\<bar>x\<bar> < 2 powi (k + 1)" .
  have "(2::rat) powi (bitlen p - 1) \<le> of_int p" using p by (rule bitlen_powi_bounds)
  moreover have "of_int q < (2::rat) powi bitlen q" using q by (rule bitlen_powi_bounds)
  ultimately have "2 powi (bitlen p - 1) * of_int q < of_int p * (2::rat) powi bitlen q"
    using p q by (intro mult_le_less_imp_less) simp_all
  then have "2 powi (bitlen p - 1) < \<bar>x\<bar> * (2::rat) powi bitlen q"
    using qpos by (simp add: x field_simps)
  then have "2 powi (bitlen p - 1) / 2 powi bitlen q < \<bar>x\<bar>"
    by (simp add: pos_divide_less_eq)
  moreover have "2 powi (bitlen p - 1) / (2::rat) powi bitlen q = 2 powi (k - 1)"
    by (simp add: k_def power_int_diff [symmetric] algebra_simps)
  ultimately have lo: "2 powi (k - 1) < \<bar>x\<bar>" by simp
  show "2 powi ilog2 x \<le> \<bar>x\<bar>"
    using lo by (simp add: il less_imp_le)
  show "\<bar>x\<bar> < 2 powi (ilog2 x + 1)"
    using up by (auto simp: il not_le)
qed

lemma ilog2_unique:
  assumes "2 powi k \<le> \<bar>x\<bar>" and "\<bar>x\<bar> < 2 powi (k + 1)"
  shows "ilog2 x = k"
proof -
  have "x \<noteq> 0" using assms(1) by auto
  note b = ilog2_bounds [OF this]
  have "\<not> ilog2 x < k"
  proof
    assume "ilog2 x < k"
    then have "(2::rat) powi (ilog2 x + 1) \<le> 2 powi k"
      by (intro power_int_increasing) simp_all
    with b(2) assms(1) show False by simp
  qed
  moreover have "\<not> k < ilog2 x"
  proof
    assume "k < ilog2 x"
    then have "(2::rat) powi (k + 1) \<le> 2 powi ilog2 x"
      by (intro power_int_increasing) simp_all
    with b(1) assms(2) show False by simp
  qed
  ultimately show ?thesis by simp
qed

lemma round_half_even_error: "\<bar>of_int (round_half_even y) - y\<bar> \<le> 1 / 2"
proof -
  have "of_int \<lfloor>y\<rfloor> \<le> y" "y < of_int \<lfloor>y\<rfloor> + 1"
    by linarith+
  then show ?thesis
    by (auto simp: round_half_even_def Let_def abs_le_iff)
qed

lemma round_half_even_of_int [simp]: "round_half_even (of_int n) = n"
  by (simp add: round_half_even_def)

lemma round_half_even_nonneg: "0 \<le> y \<Longrightarrow> 0 \<le> round_half_even y"
  by (auto simp: round_half_even_def Let_def)

lemma round_half_even_ge: "of_int n \<le> y \<Longrightarrow> n \<le> round_half_even y"
proof -
  assume "of_int n \<le> y"
  then have "n \<le> \<lfloor>y\<rfloor>" by (simp add: le_floor_iff)
  then show ?thesis by (auto simp: round_half_even_def Let_def)
qed

lemma round_half_even_le: "y \<le> of_int n \<Longrightarrow> round_half_even y \<le> n"
proof -
  assume a: "y \<le> of_int n"
  show ?thesis
  proof (cases "y = of_int n")
    case True
    then show ?thesis by simp
  next
    case False
    with a have "y < of_int n" by simp
    then have "\<lfloor>y\<rfloor> < n" by (simp add: floor_less_iff)
    then show ?thesis by (auto simp: round_half_even_def Let_def)
  qed
qed

lemma rnd_zero [simp]: "rnd 0 = 0"
  by (simp add: rnd_def)

lemma rnd_scaled:
  "x \<noteq> 0 \<Longrightarrow> rnd x = of_int (round_half_even (x / 2 powi (ilog2 x - 52))) * 2 powi (ilog2 x - 52)"
  by (simp add: rnd_def Let_def)

lemma rnd_nonneg: "0 \<le> x \<Longrightarrow> 0 \<le> rnd x"
proof (cases "x = 0")
  case True
  then show ?thesis by simp
next
  case False
  assume "0 \<le> x"
  then have "0 \<le> x / 2 powi (ilog2 x - 52)" by simp
  then have "0 \<le> round_half_even (x / 2 powi (ilog2 x - 52))"
    by (rule round_half_even_nonneg)
  then show ?thesis using False by (simp add: rnd_scaled)
qed

lemma rnd_lower:
  assumes "0 < x"
  shows "2 powi ilog2 x \<le> rnd x"
proof -
  let ?E = "ilog2 x - 52"
  have x0: "x \<noteq> 0" using assms by simp
  have "2 powi ilog2 x \<le> x" using ilog2_bounds(1) [OF x0] assms by simp
  then have "2 powi ilog2 x / 2 powi ?E \<le> x / 2 powi ?E"
    by (simp add: divide_le_cancel)
  moreover have "2 powi ilog2 x / 2 powi ?E = (2::rat) powi 52"
    by (simp add: power_int_diff [symmetric])
  ultimately have "of_int (2 ^ 52) \<le> x / 2 powi ?E" by simp
  then have "2 ^ 52 \<le> round_half_even (x / 2 powi ?E)"
    by (rule round_half_even_ge)
  then have "(of_int (2 ^ 52) :: rat) \<le> of_int (round_half_even (x / 2 powi ?E))"
    by (simp only: of_int_le_iff)
  then have "of_int (2 ^ 52) * 2 powi ?E \<le> rnd x"
    using x0 by (simp add: rnd_scaled)
  moreover have "of_int (2 ^ 52) * 2 powi ?E = (2::rat) powi ilog2 x"
    using power_int_add [of "2::rat" 52 ?E] by simp
  ultimately show ?thesis by simp
qed

lemma rnd_pos: "0 < x \<Longrightarrow> 0 < rnd x"
  using rnd_lower [of x] two_powi_pos [of "ilog2 x"] by linarith

lemma rnd_error:
  assumes "x \<noteq> 0"
  shows "\<bar>rnd x - x\<bar> \<le> 2 powi (ilog2 x - 53)"
proof -
  let ?E = "ilog2 x - 52"
  let ?y = "x / 2 powi ?E"
  have "rnd x - x = (of_int (round_half_even ?y) - ?y) * 2 powi ?E"
    using assms by (simp add: rnd_scaled algebra_simps)
  then have "\<bar>rnd x - x\<bar> = \<bar>of_int (round_half_even ?y) - ?y\<bar> * 2 powi ?E"
    by (simp add: abs_mult)
  also have "\<dots> \<le> (1 / 2) * 2 powi ?E"
    by (intro mult_right_mono round_half_even_error) simp
  also have "\<dots> = 2 powi (ilog2 x - 53)"
    using power_int_add [of "2::rat" "ilog2 x - 53" 1] by simp
  finally show ?thesis .
qed

lemma rnd_rel_error: "\<bar>rnd x - x\<bar> \<le> \<bar>x\<bar> / 2 ^ 53"
proof (cases "x = 0")
  case True
  then show ?thesis by simp
next
  case False
  have "2 powi (ilog2 x - 53) = 2 powi ilog2 x / (2::rat) ^ 53"
    by (simp add: power_int_diff)
  also have "\<dots> \<le> \<bar>x\<bar> / 2 ^ 53"
    using ilog2_bounds(1) [OF False] by (simp add: divide_right_mono)
  finally show ?thesis using rnd_error [OF False] by linarith
qed

lemma rnd_representable:
  assumes "\<bar>m\<bar> < 2 ^ 53"
  shows "rnd (of_int m * 2 powi e) = of_int m * 2 powi e"
proof (cases "m = 0")
  case True
  then show ?thesis by simp
next
  case False
  let ?x = "of_int m * (2::rat) powi e"
  have x0: "?x \<noteq> 0" using False by simp
  have "\<bar>?x\<bar> = of_int \<bar>m\<bar> * 2 powi e" by (simp add: abs_mult)
  also have "\<dots> < of_int (2 ^ 53) * 2 powi e"
    using assms by (intro mult_strict_right_mono) (simp_all only: of_int_less_iff two_powi_pos)
  also have "\<dots> = 2 powi (e + 53)"
    using power_int_add [of "2::rat" e 53] by simp
  finally have "\<bar>?x\<bar> < 2 powi (e + 53)" .
  with ilog2_bounds(1) [OF x0] have "(2::rat) powi ilog2 ?x < 2 powi (e + 53)" by simp
  then have "ilog2 ?x < e + 53"
    by (metis linorder_not_less one_le_numeral power_int_increasing)
  then have n: "0 \<le> e - (ilog2 ?x - 52)" by simp
  define n where "n = nat (e - (ilog2 ?x - 52))"
  have "?x / 2 powi (ilog2 ?x - 52) = of_int m * 2 powi (e - (ilog2 ?x - 52))"
    by (simp add: power_int_diff)
  also have "\<dots> = of_int (m * 2 ^ n)"
    using n by (simp add: n_def power_int_nonneg_exp)
  finally have y: "?x / 2 powi (ilog2 ?x - 52) = of_int (m * 2 ^ n)" .
  have "rnd ?x = of_int (m * 2 ^ n) * 2 powi (ilog2 ?x - 52)"
    unfolding rnd_scaled [OF x0] y round_half_even_of_int ..
  also have "\<dots> = (?x / 2 powi (ilog2 ?x - 52)) * 2 powi (ilog2 ?x - 52)"
    by (simp only: y)
  also have "\<dots> = ?x" by simp
  finally show ?thesis .
qed

lemma rnd_of_int: "\<bar>m\<bar> < 2 ^ 53 \<Longrightarrow> rnd (of_int m) = of_int m"
  using rnd_representable [of m 0] by simp

lemma rnd_half: "\<bar>m\<bar> < 2 ^ 53 \<Longrightarrow> rnd (of_int m / 2) = of_int m / 2"
  using rnd_representable [of m "- 1"] by (simp add: power_int_minus field_simps)

lemma trunc_nonneg: "0 \<le> x \<Longrightarrow> trunc x = \<lfloor>x\<rfloor>"
  by (simp add: trunc_def)

lemma trunc_true_div:
  assumes a: "0 \<le> a" "a < 2 ^ 53" and b: "0 < b"
  shows "trunc (rnd (of_int a / of_int b)) = a div b"
proof -
  let ?x = "of_int a / of_int b :: rat"
  define q where "q = a div b"
  define r where "r = a mod b"
  have bq: "0 < (of_int b :: rat)" using b by simp
  have r: "0 \<le> r" "r < b" using b by (simp_all add: r_def)
  have q0: "0 \<le> q" using a b by (simp add: q_def pos_imp_zdiv_nonneg_iff)
  have "a = b * q + r" by (simp add: q_def r_def)
  then have "(of_int a :: rat) = of_int b * of_int q + of_int r"
    by (metis of_int_add of_int_mult)
  then have x: "?x = of_int q + of_int r / of_int b"
    using bq by (simp add: field_simps)
  have x0: "0 \<le> ?x" using a b by simp
  have "of_int q \<le> rnd ?x \<and> rnd ?x < of_int q + 1"
  proof (cases "r = 0")
    case True
    have "q * 1 \<le> q * b" using q0 b by (intro mult_left_mono) simp_all
    with \<open>a = b * q + r\<close> r have "q \<le> a" by (simp add: mult.commute)
    with q0 a have "\<bar>q\<bar> < 2 ^ 53" by simp
    then have "rnd (of_int q) = of_int q" by (rule rnd_of_int)
    with True x show ?thesis by simp
  next
    case False
    with r have r1: "1 \<le> r" by simp
    have "(of_int a :: rat) < of_int (2 ^ 53)" using a(2) by (simp only: of_int_less_iff)
    then have "(of_int a :: rat) < 2 ^ 53" by simp
    then have "?x / 2 ^ 53 < 1 / of_int b"
      using bq by (simp add: field_simps)
    moreover have "\<bar>rnd ?x - ?x\<bar> \<le> ?x / 2 ^ 53"
      using rnd_rel_error [of ?x] x0 by simp
    ultimately have e: "\<bar>rnd ?x - ?x\<bar> < 1 / of_int b" by linarith
    have "(1::rat) \<le> of_int r" using r1 by simp
    then have lo: "1 / of_int b \<le> of_int r / (of_int b :: rat)"
      using bq by (simp add: divide_right_mono)
    have "(of_int (r + 1) :: rat) \<le> of_int b" using r(2) by (simp only: of_int_le_iff)
    then have "(of_int r + 1) / of_int b \<le> (1::rat)"
      using bq by simp
    then have hi: "of_int r / of_int b + 1 / of_int b \<le> (1::rat)"
      by (simp add: add_divide_distrib)
    from e lo hi x show ?thesis by (simp add: abs_less_iff)
  qed
  then have "\<lfloor>rnd ?x\<rfloor> = q" by (intro floor_unique) simp_all
  moreover have "0 \<le> rnd ?x" using x0 by (rule rnd_nonneg)
  ultimately show ?thesis by (simp add: trunc_nonneg q_def)
qed

subsection \<open>Calibration matrices\<close>

lemma identity_3: "identity 3 = [[1, 0, 0], [0, 1, 0], [0, 0, 1]]"
  by (simp add: identity_def upt_rec)

lemma replicate_3: "replicate 3 x = [x, x, x]"
  by (simp add: numeral_eq_Suc)

lemma replicate_5: "replicate 5 x = [x, x, x, x, x]"
  by (simp add: numeral_eq_Suc)

lemma true_div_pos: "0 < b \<Longrightarrow> true_div a b = Inr (rnd (of_int a / of_int b))"
  by (simp add: true_div_def)

lemma calibration_value:
  assumes "0 < w" and "0 < h"
  shows "get_flatten_calibration_matrices (w, h) =
           (let fx = float_of_int w;
                fy = rnd (float_of_int h / rnd (of_int h / of_int w));
                cx = rnd (of_int w / 2);
                cy = rnd (of_int h / 2)
            in Inr ([0, 0, 0, 0, 0],
                    [fx, 0, cx, 0, fy, cy, 0, 0, 1],
                    [1, 0, 0, 0, 1, 0, 0, 0, 1],
                    [fx, 0, cx, 0, 0, fy, cy, 0, 0, 0, 1, 0]))"
proof -
  have "0 < (of_int h / of_int w :: rat)" using assms by simp
  then have "rnd (of_int h / of_int w) \<noteq> 0" using rnd_pos by force
  then show ?thesis
    using assms
    by (simp add: get_flatten_calibration_matrices_def true_div_def float_div_def identity_3
        set_entries_def column_stack_def flatten_def Let_def numeral_2_eq_2 replicate_3 replicate_5)
qed

lemma float_of_int_exact: "\<bar>i\<bar> < 2 ^ 53 \<Longrightarrow> float_of_int i = of_int i"
  by (simp add: float_of_int_def rnd_of_int)

subsection \<open>The conversion loop\<close>

lemma same_bag_refl [simp]: "same_bag s s"
  by (simp add: same_bag_def)


lemma same_bag_sym: "same_bag s t \<Longrightarrow> same_bag t s"
  by (simp add: same_bag_def)





lemma convert_files_skip:
  assumes "create_image_camera_info_messages cv fl \<lparr>stamp = cur, frame_id = fid\<rparr> = Inl e"
      and "caught e"
  shows "convert_files cv names fid (fl # files) cur st =
           convert_files cv names fid files cur (skip_state cv fl e st)"
  using assms by (simp add: Let_def skip_state_def)

lemma calibration_succeeds:
  "0 < w \<Longrightarrow> 0 < h \<Longrightarrow> \<exists>d k r p. get_flatten_calibration_matrices (w, h) = Inr (d, k, r, p)"
  using calibration_value [of w h] by (simp add: Let_def)

lemma encoding_of_mode:
  "map_of image_encoding_map m =
     (if m = ''RGB'' then Some ''rgb8''
      else if m = ''RGBA'' then Some ''rgba8''
      else if m = ''L'' then Some ''mono8''
      else None)"
  by (simp add: image_encoding_map_def)

lemma bands_of_mode:
  "int (length (getbands m)) = (if m = ''RGB'' then 3 else if m = ''RGBA'' then 4 else 1)"
  by (simp add: getbands_def)

subsection \<open>Channel names\<close>

lemma plain_shape:
  assumes "plain s"
  shows "s \<noteq> []" and "hd s \<noteq> slash" and "last s \<noteq> slash"
proof -
  show ne: "s \<noteq> []"
    using assms by (auto simp: plain_def kept_def)
  show "hd s \<noteq> slash"
    using assms ne by (cases s) (auto simp: plain_def kept_def)
  show "last s \<noteq> slash"
  proof
    assume "last s = slash"
    with ne have "s = butlast s @ [slash]"
      by (metis append_butlast_last_id)
    then have "split slash s = split slash (butlast s) @ [[]]"
      using split_append_sep [of slash "butlast s" "[]"] by simp
    with assms show False by (simp add: plain_def kept_def)
  qed
qed

lemma splitroot_append: "splitroot c = (rt, rel) \<Longrightarrow> c = rt @ rel"
  by (cases c) (auto split: if_splits list.splits)

lemma splitroot_root_ne: "c \<noteq> [] \<Longrightarrow> hd c = slash \<Longrightarrow> fst (splitroot c) \<noteq> []"
  by (cases c) (auto split: if_splits list.splits)

lemma length_join: "length (join c ss) = sum_list (map length ss) + (length ss - 1)"
  by (induction c ss rule: join.induct) auto

lemma length_join_filter: "length (join c (filter P ss)) \<le> length (join c ss)"
proof -
  have "sum_list (map length (filter P ss)) \<le> sum_list (map length ss)"
    by (induction ss) auto
  moreover have "length (filter P ss) - 1 \<le> length ss - 1"
    using length_filter_le [of P ss] by linarith
  ultimately show ?thesis by (simp add: length_join)
qed

lemma purepath_str_absolute:
  "c \<noteq> [] \<Longrightarrow> hd c = slash \<Longrightarrow> purepath_str [p, c] = purepath_str [c]"
  by (simp add: purepath_str_def)

lemma length_purepath_str:
  assumes "c \<noteq> []" and "hd c = slash"
  shows "length (purepath_str [c]) \<le> length c"
proof -
  obtain rt rel where sr: "splitroot c = (rt, rel)"
    by (cases "splitroot c") auto
  have c: "c = rt @ rel" using sr by (rule splitroot_append)
  have rt: "rt \<noteq> []" using splitroot_root_ne [OF assms] sr by simp
  have "length (join slash (filter kept (split slash rel))) \<le> length rel"
    using length_join_filter [of slash kept "split slash rel"] by (simp add: join_split)
  moreover have "purepath_str [c] = rt @ join slash (filter kept (split slash rel))"
    using sr rt by (simp add: purepath_str_def)
  ultimately show ?thesis using c by simp
qed

lemma filter_kept_plain: "plain s \<Longrightarrow> filter kept (split slash s) = split slash s"
  by (simp add: plain_def filter_kept_id)

lemma purepath_str_plain_absolute:
  assumes "plain c"
  shows "purepath_str [slash # c] = slash # c"
proof -
  obtain a r where c: "c = a # r" and a: "a \<noteq> slash"
    using plain_shape(1,2) [OF assms] by (cases c) auto
  then have "splitroot (slash # c) = ([slash], c)" by simp
  then show ?thesis
    using assms by (simp add: purepath_str_def filter_kept_plain join_split)
qed

lemma purepath_str_plain_relative:
  assumes "plain f" and "plain c"
  shows "purepath_str [slash # f, c] = slash # f @ slash # c"
proof -
  obtain a r where f: "f = a # r" and a: "a \<noteq> slash"
    using plain_shape(1,2) [OF assms(1)] by (cases f) auto
  have "last (slash # f) \<noteq> slash"
    using plain_shape(1,3) [OF assms(1)] by simp
  then have j: "posix_join (slash # f) [c] = slash # f @ slash # c"
    using plain_shape(1,2) [OF assms(2)] by simp
  have sr: "splitroot (slash # f @ slash # c) = ([slash], f @ slash # c)"
    using f a by simp
  have "filter kept (split slash (f @ slash # c)) = split slash f @ split slash c"
    using assms by (simp add: split_append_sep filter_kept_plain)
  moreover have "join slash (split slash f @ split slash c) = f @ slash # c"
    by (simp add: join_append join_split)
  ultimately show ?thesis
    using j sr by (simp add: purepath_str_def)
qed

lemma frame_id_dot_or_plain:
  "get_frame_id_from_topic t = ''.'' \<or> plain (get_frame_id_from_topic t)"
proof -
  let ?segs = "split slash (strip slash t)"
  let ?chosen = "if butlast ?segs = [] then ?segs else butlast ?segs"
  let ?k = "filter kept ?chosen"
  have fid: "get_frame_id_from_topic t = render ?k"
    by (simp add: frame_id_render Let_def)
  have free: "\<forall>b \<in> set ?k. slash \<notin> set b"
    using split_segments_free by (auto dest: in_set_butlastD)
  show ?thesis
  proof (cases "?k = []")
    case True
    with fid show ?thesis by (simp add: render_def)
  next
    case False
    then have "split slash (join slash ?k) = ?k"
      using free by (intro split_join) simp_all
    moreover have "list_all kept ?k" by (simp add: list_all_iff)
    ultimately have "plain (join slash ?k)" by (simp add: plain_def)
    with fid False show ?thesis by (simp add: render_def)
  qed
qed

lemma not_plain_dot: "\<not> plain ''.''"
  by (simp add: plain_def kept_def)

lemma created_convert_files:
  "created (snd (convert_files cv names fid files cur st)) = created st"
proof (induction files arbitrary: cur st)
  case Nil
  show ?case by simp
next
  case (Cons fl files)
  show ?case
    by (auto simp: Let_def Cons rprint_def access_def writer_write_def
        split: sum.splits prod.splits)
qed

lemma register_topics_names:
  "fst (register_topics cv fid t st) =
     (slash # lstrip slash t, purepath_str [slash # fid, camera_info_topic cv])"
  by (simp add: register_topics_def Let_def)

lemma register_topics_created:
  "created (snd (register_topics cv fid t st)) =
     created st @
       [\<lparr>tm_name = slash # lstrip slash t, tm_type = ''sensor_msgs/msg/Image'',
         serialization_format = ''cdr''\<rparr>,
        \<lparr>tm_name = purepath_str [slash # fid, camera_info_topic cv],
         tm_type = ''sensor_msgs/msg/CameraInfo'', serialization_format = ''cdr''\<rparr>]"
  by (simp add: register_topics_def Let_def create_topic_def)

lemma convert_image_to_topic_created:
  "created (snd (convert_image_to_topic ev cv d t st)) =
     created st @
       [\<lparr>tm_name = slash # lstrip slash t, tm_type = ''sensor_msgs/msg/Image'',
         serialization_format = ''cdr''\<rparr>,
        \<lparr>tm_name = purepath_str [slash # get_frame_id_from_topic t, camera_info_topic cv],
         tm_type = ''sensor_msgs/msg/CameraInfo'', serialization_format = ''cdr''\<rparr>]"
proof -
  obtain names st1 where r: "register_topics cv (get_frame_id_from_topic t) t st = (names, st1)"
    by (cases "register_topics cv (get_frame_id_from_topic t) t st") auto
  have cr: "created st1 =
     created st @
       [\<lparr>tm_name = slash # lstrip slash t, tm_type = ''sensor_msgs/msg/Image'',
         serialization_format = ''cdr''\<rparr>,
        \<lparr>tm_name = purepath_str [slash # get_frame_id_from_topic t, camera_info_topic cv],
         tm_type = ''sensor_msgs/msg/CameraInfo'', serialization_format = ''cdr''\<rparr>]"
    using register_topics_created [of cv "get_frame_id_from_topic t" t st] by (simp add: r)
  have "created (snd (convert_image_to_topic ev cv d t st)) = created st1"
    by (simp add: convert_image_to_topic_def Let_def r created_convert_files access_def)
  with cr show ?thesis by simp
qed

lemma convert_two_pairs_created:
  assumes "image_topic_pairs cv = [(d1, t1), (d2, t2)]"
      and "fst (convert ev cv out st) = Inr ()"
  shows "created (snd (convert ev cv out st)) =
           created st @
             [\<lparr>tm_name = slash # lstrip slash t1, tm_type = ''sensor_msgs/msg/Image'',
               serialization_format = ''cdr''\<rparr>,
              \<lparr>tm_name = purepath_str [slash # get_frame_id_from_topic t1, camera_info_topic cv],
               tm_type = ''sensor_msgs/msg/CameraInfo'', serialization_format = ''cdr''\<rparr>,
              \<lparr>tm_name = slash # lstrip slash t2, tm_type = ''sensor_msgs/msg/Image'',
               serialization_format = ''cdr''\<rparr>,
              \<lparr>tm_name = purepath_str [slash # get_frame_id_from_topic t2, camera_info_topic cv],
               tm_type = ''sensor_msgs/msg/CameraInfo'', serialization_format = ''cdr''\<rparr>]"
proof -
  let ?st0 = "st\<lparr>bag := Some (out, storage cv)\<rparr>"
  obtain r1 st1 where c1: "convert_image_to_topic ev cv d1 t1 ?st0 = (r1, st1)"
    by (cases "convert_image_to_topic ev cv d1 t1 ?st0") auto
  obtain r2 st2 where c2: "convert_image_to_topic ev cv d2 t2 st1 = (r2, st2)"
    by (cases "convert_image_to_topic ev cv d2 t2 st1") auto
  have s1: "created st1 = created (snd (convert_image_to_topic ev cv d1 t1 ?st0))"
    using c1 by simp
  have s2: "created st2 = created (snd (convert_image_to_topic ev cv d2 t2 st1))"
    using c2 by simp
  from assms(2) c1 c2 obtain u1 u2 where ok: "r1 = Inr u1" "r2 = Inr u2"
    by (cases r1; cases r2) (auto simp: convert_def assms(1))
  have "created (snd (convert ev cv out st)) = created st2"
    using c1 c2 ok by (simp add: convert_def assms(1) rprint_def)
  then show ?thesis
    by (simp add: s1 s2 convert_image_to_topic_created)
qed

lemma example_run_ok: "fst (convert example_env example_converter ''out.bag'' initial) = Inr ()"
  by code_simp

subsection \<open>Resizing\<close>

lemma img_size_auto_width:
  assumes "0 < height img" and "0 \<le> width img" and "fst sz \<le> 0" and "0 \<le> snd sz"
      and "width img * snd sz < 2 ^ 53"
  shows "img_size img sz = Inr (width img * snd sz div height img, snd sz)"
proof -
  have "0 \<le> width img * snd sz" using assms by simp
  then have "trunc (rnd (of_int (width img * snd sz) / of_int (height img))) =
             width img * snd sz div height img"
    using assms by (intro trunc_true_div) simp_all
  then show ?thesis
    using assms by (simp add: img_size_def true_div_def)
qed

lemma img_size_auto_height:
  assumes "0 < width img" and "0 \<le> height img" and "0 < fst sz" and "snd sz \<le> 0"
      and "height img * fst sz < 2 ^ 53"
  shows "img_size img sz = Inr (fst sz, height img * fst sz div width img)"
proof -
  have "0 \<le> height img * fst sz" using assms by simp
  then have "trunc (rnd (of_int (height img * fst sz) / of_int (width img))) =
             height img * fst sz div width img"
    using assms by (intro trunc_true_div) simp_all
  then show ?thesis
    using assms by (simp add: img_size_def true_div_def)
qed

lemma image_size_type_width:
  assumes "image_size_type s"
  shows "takeWhile is_digit s \<noteq> ''0''"
proof
  assume z: "takeWhile is_digit s = ''0''"
  then obtain r where s: "s = CHR ''0'' # r"
    by (cases s) (auto split: if_splits)
  with z have r: "takeWhile is_digit r = []" by (auto split: if_splits)
  have d0: "is_digit CHR ''0''" by (simp add: is_digit_def)
  have dr: "dropWhile is_digit s = r"
    using r s d0 by (cases r) (auto split: if_splits)
  from assms have "\<not> zero_then_end s" "\<not> zero_then_sep s"
    by (simp_all add: image_size_type_def)
  with s have ne: "\<not> at_end r" and ns: "\<not> (\<exists>d q. r = d # q \<and> is_sep d)"
    by (auto simp: zero_then_end_def zero_then_sep_def)
  from assms dr ne have "case r of [] \<Rightarrow> False | c # q \<Rightarrow> is_sep c \<and> \<not> zero_then_end q \<and>
      takeWhile is_digit q \<noteq> [] \<and> at_end (dropWhile is_digit q)"
    by (simp add: image_size_type_def Let_def)
  with ns show False by (cases r) auto
qed

subsection \<open>The timestamp sequence\<close>



lemma image_stamps_skip_state [simp]: "image_stamps (skip_state cv f e st) = image_stamps st"
  by (simp add: image_stamps_def skip_state_def rprint_def access_def)





lemma fmod_range:
  assumes "0 \<le> x" and "0 < y"
  shows "0 \<le> fmod x y" and "fmod x y < y" and "fmod x y = x - of_int \<lfloor>x / y\<rfloor> * y"
proof -
  have q: "0 \<le> x / y" using assms by simp
  then show e: "fmod x y = x - of_int \<lfloor>x / y\<rfloor> * y"
    by (simp add: fmod_def trunc_def)
  have "of_int \<lfloor>x / y\<rfloor> * y \<le> (x / y) * y"
    using assms(2) by (intro mult_right_mono) simp_all
  then have "of_int \<lfloor>x / y\<rfloor> * y \<le> x"
    using assms(2) by simp
  then show "0 \<le> fmod x y" by (simp add: e)
  have "(x / y) * y < (of_int \<lfloor>x / y\<rfloor> + 1) * y"
    using assms(2) by (intro mult_strict_right_mono) linarith+
  then have "x < (of_int \<lfloor>x / y\<rfloor> + 1) * y"
    using assms(2) by simp
  then show "fmod x y < y" by (simp add: e algebra_simps)
qed

lemma float_rem_nonneg:
  assumes "0 \<le> x" and "0 < y"
  shows "float_rem x y = fmod x y"
  using fmod_range(1) [OF assms] assms(2) by (simp add: float_rem_def Let_def)

lemma split_float:
  assumes "0 \<le> x"
  shows "split_unix_timestamp (PyFloat x) =
           (\<lfloor>x\<rfloor>,
            \<lfloor>rnd (x * 1000000000) - of_int \<lfloor>rnd (x * 1000000000) / 1000000000\<rfloor> * 1000000000\<rfloor>)"
proof -
  have r: "0 \<le> rnd (x * 1000000000)" using assms by (intro rnd_nonneg) simp
  have "0 \<le> fmod (rnd (x * 1000000000)) 1000000000"
    using r by (intro fmod_range) simp_all
  then show ?thesis
    using assms r fmod_range(3) [OF r, of 1000000000]
    by (simp add: split_unix_timestamp_def Let_def lit_1e9_def float_rem_nonneg trunc_nonneg)
qed






lemma image_stamps_register [simp]:
  "image_stamps (snd (register_topics cv fid t st)) = image_stamps st"
  by (simp add: register_topics_def Let_def create_topic_def image_stamps_def)

lemma image_stamps_access [simp]: "image_stamps (access a st) = image_stamps st"
  by (simp add: access_def image_stamps_def)




subsection \<open>Natural sorting\<close>

lemma cmp_nat_refl [simp]: "cmp_nat a a = EQ"
  by (simp add: cmp_nat_def)

lemma cmp_list_refl: "(\<And>x. cmp x x = EQ) \<Longrightarrow> cmp_list cmp xs xs = EQ"
  by (induction xs) simp_all

lemma cmp_string_refl [simp]: "cmp_string s s = EQ"
  by (simp add: cmp_string_def cmp_list_refl)

lemma cmp_chunk_refl [simp]: "cmp_chunk c c = EQ"
  by (cases c) simp_all



lemma lower_slash [simp]: "lower slash = slash"
  by (simp add: lower_def)


lemma blank_eq_slash:
  "(if c = CHR '' '' then CHR ''_'' else c) = slash \<longleftrightarrow> c = slash"
  by auto







section \<open>The claims\<close>

text \<open>
  C4 (amended).  For every topic, the frame identifier is printed from the components that
  \<^verbatim>\<open>PurePath\<close> keeps of the parent segments of the stripped topic (of all its segments when
  there is no parent): empty segments and \<^verbatim>\<open>.\<close> segments are dropped, the rest is joined
  by slashes, and nothing left is printed as \<^verbatim>\<open>.\<close>.  Whenever no segment of the stripped
  topic is empty or \<^verbatim>\<open>.\<close>, this is the stripped topic without its last segment, or the
  stripped topic itself when it has a single segment.  In particular \<^verbatim>\<open>/cam/front\<close> gives
  \<^verbatim>\<open>cam\<close> and \<^verbatim>\<open>front\<close> gives \<^verbatim>\<open>front\<close>.
\<close>

theorem frame_id_of_topic:
  "get_frame_id_from_topic t =
     (let segs = split slash (strip slash t)
      in render (filter kept (if butlast segs = [] then segs else butlast segs))) \<and>
   (list_all kept (split slash (strip slash t)) \<longrightarrow> get_frame_id_from_topic t = spec_frame_id t) \<and>
   get_frame_id_from_topic ''/cam/front'' = ''cam'' \<and>
   get_frame_id_from_topic ''front'' = ''front''"
proof -
  have "get_frame_id_from_topic ''/cam/front'' = ''cam''"
    by (simp add: get_frame_id_from_topic_def strip_def lstrip_def rstrip_def purepath_str_def kept_def)
  moreover have "get_frame_id_from_topic ''front'' = ''front''"
    by (simp add: get_frame_id_from_topic_def strip_def lstrip_def rstrip_def purepath_str_def kept_def)
  ultimately show ?thesis
    using frame_id_render [of t] frame_id_spec [of t] by blast
qed

theorem frame_id_of_topic_witness:
  "list_all kept (split slash (strip slash ''/robot/cam/front'')) \<and>
   get_frame_id_from_topic ''/robot/cam/front'' = spec_frame_id ''/robot/cam/front''"
proof -
  have h: "list_all kept (split slash (strip slash ''/robot/cam/front''))"
    by (simp add: strip_def lstrip_def rstrip_def kept_def)
  with frame_id_of_topic [of "''/robot/cam/front''"] show ?thesis
    by blast
qed

text \<open>The claim as stated fails for a topic that is empty once stripped, and for a topic
  with an empty segment.\<close>

theorem frame_id_counterexample:
  "get_frame_id_from_topic ''/'' = ''.'' \<and> spec_frame_id ''/'' = [] \<and>
   get_frame_id_from_topic ''a//b/c'' = ''a/b'' \<and> spec_frame_id ''a//b/c'' = ''a//b''"
  by (simp add: get_frame_id_from_topic_def spec_frame_id_def strip_def lstrip_def rstrip_def
      purepath_str_def kept_def)

text \<open>
  C3 (amended).  For every image of post-resize width \<open>w\<close> and height \<open>h\<close>, both positive
  (and below \<open>2\<^sup>5\<^sup>3\<close>, so that they are doubles), the synthesized calibration record has
  distortion = five zeros, rotation = the 3x3 identity, projection = the intrinsic matrix
  with an appended zero column, and an intrinsic matrix with \<open>focal_x = w\<close>,
  \<open>focal_y = h / aspect_ratio\<close> where \<open>aspect_ratio = h / w\<close> (each quotient rounded to a
  double), and principal point \<open>(w / 2, h / 2)\<close>.
\<close>

theorem calibration_matrices:
  assumes "0 < w" and "w < 2 ^ 53" and "0 < h" and "h < 2 ^ 53"
  shows "get_flatten_calibration_matrices (w, h) =
           (let aspect_ratio = rnd (of_int h / of_int w);
                fx = of_int w;
                fy = rnd (of_int h / aspect_ratio);
                cx = of_int w / 2;
                cy = of_int h / 2
            in Inr ([0, 0, 0, 0, 0],
                    [fx, 0, cx, 0, fy, cy, 0, 0, 1],
                    [1, 0, 0, 0, 1, 0, 0, 0, 1],
                    [fx, 0, cx, 0, 0, fy, cy, 0, 0, 0, 1, 0]))"
proof -
  have "\<bar>w\<bar> < 2 ^ 53" and "\<bar>h\<bar> < 2 ^ 53" using assms by simp_all
  then show ?thesis
    using assms calibration_value [of w h]
    by (simp add: Let_def float_of_int_exact rnd_half)
qed

theorem calibration_matrices_witness:
  "(0::int) < 640 \<and> (640::int) < 2 ^ 53 \<and> (0::int) < 480 \<and> (480::int) < 2 ^ 53 \<and>
   get_flatten_calibration_matrices (640, 480) =
     Inr ([0, 0, 0, 0, 0],
          [640, 0, 320, 0, 640, 240, 0, 0, 1],
          [1, 0, 0, 0, 1, 0, 0, 0, 1],
          [640, 0, 320, 0, 0, 640, 240, 0, 0, 0, 1, 0])"
proof -
  have r1: "rnd (3 / 4) = 3 / 4" by code_simp
  have r2: "rnd 640 = 640" by code_simp
  show ?thesis
    using calibration_matrices [of 640 480] by (simp add: Let_def r1 r2)
qed

text \<open>The claim as stated has \<open>focal_y = w / aspect_ratio\<close>: for a 640x480 image that is
  about 853.33, where the code stores 640.\<close>

theorem calibration_counterexample:
  "get_flatten_calibration_matrices (640, 480) =
     Inr ([0, 0, 0, 0, 0],
          [640, 0, 320, 0, 640, 240, 0, 0, 1],
          [1, 0, 0, 0, 1, 0, 0, 0, 1],
          [640, 0, 320, 0, 0, 640, 240, 0, 0, 0, 1, 0]) \<and>
   spec_focal_y (640, 480) = Inr (7505999378950827 / 8796093022208) \<and>
   (7505999378950827 / 8796093022208 :: rat) \<noteq> 640"
  by code_simp





text \<open>
  C7.  For every decoded (and, when a size is configured, resized) image the encoding
  table is the closed enumeration RGB \<open>\<mapsto>\<close> rgb8, RGBA \<open>\<mapsto>\<close> rgba8, L \<open>\<mapsto>\<close> mono8.  An image
  of one of these modes, of positive width and height, yields an image record with that
  encoding, \<open>is_bigendian = False\<close> and \<open>step\<close> = width times 3, 4 and 1 respectively.
  Any other mode raises the warning that the loop catches: the file is skipped and the loop
  goes on with the next file.
\<close>

theorem pixel_mode_mapping:
  assumes "entry_open fl = Inr img_org"
      and "(case imgsz cv of None \<Rightarrow> Inr img_org | Some sz \<Rightarrow> resize_image img_org sz) = Inr img"
  shows "map_of image_encoding_map (mode img) =
           (if mode img = ''RGB'' then Some ''rgb8''
            else if mode img = ''RGBA'' then Some ''rgba8''
            else if mode img = ''L'' then Some ''mono8''
            else None) \<and>
         (mode img \<in> {''RGB'', ''RGBA'', ''L''} \<and> 0 < width img \<and> 0 < height img \<longrightarrow>
            (\<exists>im ci. create_image_camera_info_messages cv fl hdr = Inr (im, ci) \<and>
               encoding im = the (map_of image_encoding_map (mode img)) \<and>
               \<not> is_bigendian im \<and>
               step im = width img *
                 (if mode img = ''RGB'' then 3 else if mode img = ''RGBA'' then 4 else 1) \<and>
               img_width im = width img \<and> img_height im = height img \<and> img_header im = hdr)) \<and>
         (mode img \<notin> {''RGB'', ''RGBA'', ''L''} \<longrightarrow>
            create_image_camera_info_messages cv fl hdr =
              Inl (UserWarning (unsupported_mode_msg (mode img) (entry_path fl))) \<and>
            convert_files cv names fid (fl # files) cur st =
              convert_files cv names fid files cur
                (skip_state cv fl (UserWarning (unsupported_mode_msg (mode img) (entry_path fl))) st))"
proof (intro conjI impI)
  show "map_of image_encoding_map (mode img) =
           (if mode img = ''RGB'' then Some ''rgb8''
            else if mode img = ''RGBA'' then Some ''rgba8''
            else if mode img = ''L'' then Some ''mono8''
            else None)"
    by (rule encoding_of_mode)
next
  assume a: "mode img \<in> {''RGB'', ''RGBA'', ''L''} \<and> 0 < width img \<and> 0 < height img"
  then obtain d k r p where
    c: "get_flatten_calibration_matrices (width img, height img) = Inr (d, k, r, p)"
    using calibration_succeeds by blast
  from a obtain enc where enc: "map_of image_encoding_map (mode img) = Some enc"
    by (auto simp: encoding_of_mode)
  show "\<exists>im ci. create_image_camera_info_messages cv fl hdr = Inr (im, ci) \<and>
               encoding im = the (map_of image_encoding_map (mode img)) \<and>
               \<not> is_bigendian im \<and>
               step im = width img *
                 (if mode img = ''RGB'' then 3 else if mode img = ''RGBA'' then 4 else 1) \<and>
               img_width im = width img \<and> img_height im = height img \<and> img_header im = hdr"
    using assms c enc
    by (simp add: create_image_camera_info_messages_def Let_def bands_of_mode)
next
  assume a: "mode img \<notin> {''RGB'', ''RGBA'', ''L''}"
  then have none: "map_of image_encoding_map (mode img) = None"
    by (simp add: encoding_of_mode)
  show w: "create_image_camera_info_messages cv fl hdr =
           Inl (UserWarning (unsupported_mode_msg (mode img) (entry_path fl)))" for hdr
    using assms none by (simp add: create_image_camera_info_messages_def)
  show "convert_files cv names fid (fl # files) cur st =
          convert_files cv names fid files cur
            (skip_state cv fl (UserWarning (unsupported_mode_msg (mode img) (entry_path fl))) st)"
    by (rule convert_files_skip [OF w]) simp
qed

theorem pixel_mode_mapping_witness:
  "entry_open rgb_file = Inr \<lparr>width = 4, height = 2, mode = ''RGB''\<rparr> \<and>
   (case imgsz example_converter of
      None \<Rightarrow> Inr \<lparr>width = 4, height = 2, mode = ''RGB''\<rparr>
    | Some sz \<Rightarrow> resize_image \<lparr>width = 4, height = 2, mode = ''RGB''\<rparr> sz) =
     Inr \<lparr>width = 4, height = 2, mode = ''RGB''\<rparr> \<and>
   (\<exists>im ci. create_image_camera_info_messages example_converter rgb_file
               \<lparr>stamp = (1, 0), frame_id = ''cam''\<rparr> = Inr (im, ci) \<and>
      encoding im = ''rgb8'' \<and> \<not> is_bigendian im \<and> step im = 12 \<and>
      img_width im = 4 \<and> img_height im = 2 \<and>
      img_header im = \<lparr>stamp = (1, 0), frame_id = ''cam''\<rparr>)"
proof -
  let ?img = "\<lparr>width = 4, height = 2, mode = ''RGB''\<rparr>"
  have h1: "entry_open rgb_file = Inr ?img"
    by (simp add: rgb_file_def)
  have h2: "(case imgsz example_converter of None \<Rightarrow> Inr ?img | Some sz \<Rightarrow> resize_image ?img sz) =
            Inr ?img"
    by (simp add: example_converter_def)
  from pixel_mode_mapping [OF h1 h2, of "\<lparr>stamp = (1, 0), frame_id = ''cam''\<rparr>"] h1 h2
  show ?thesis
    by (simp add: encoding_of_mode)
qed

text \<open>
  C10 (amended).  For every frame id \<open>f\<close> and every camera-info topic \<open>c\<close>: if \<open>c\<close> begins
  with a slash, the calibration channel is registered under what \<^verbatim>\<open>PurePath\<close> prints for
  \<open>c\<close> alone (the prefix \<open>/f\<close> is discarded by the join) and this is never \<open>/f/c\<close>; the
  name is \<open>c\<close> itself when the rest of \<open>c\<close> is plain (no empty segment, so no trailing or
  doubled slash).  If \<open>f\<close> and \<open>c\<close> are both plain, the name is \<open>/f/c\<close>.
\<close>

theorem camera_info_channel_name:
  assumes "camera_info_topic cv = c"
  shows "(c \<noteq> [] \<and> hd c = slash \<longrightarrow>
            snd (fst (register_topics cv f t st)) = purepath_str [c] \<and>
            snd (fst (register_topics cv f t st)) \<noteq> slash # f @ slash # c) \<and>
         (plain (tl c) \<and> c \<noteq> [] \<and> hd c = slash \<longrightarrow> snd (fst (register_topics cv f t st)) = c) \<and>
         (plain f \<and> plain c \<longrightarrow> snd (fst (register_topics cv f t st)) = slash # f @ slash # c)"
proof (intro conjI impI)
  assume a: "c \<noteq> [] \<and> hd c = slash"
  then show n: "snd (fst (register_topics cv f t st)) = purepath_str [c]"
    using assms by (simp add: register_topics_names purepath_str_absolute)
  have "length (purepath_str [c]) \<le> length c"
    using a by (simp add: length_purepath_str)
  moreover have "length (slash # f @ slash # c) = length c + length f + 2"
    by simp
  ultimately have "length (purepath_str [c]) \<noteq> length (slash # f @ slash # c)"
    by linarith
  then have "purepath_str [c] \<noteq> slash # f @ slash # c"
    by (rule contrapos_nn) (erule arg_cong)
  with n show "snd (fst (register_topics cv f t st)) \<noteq> slash # f @ slash # c"
    by simp
next
  assume a: "plain (tl c) \<and> c \<noteq> [] \<and> hd c = slash"
  then have c: "c = slash # tl c" by (cases c) auto
  have "purepath_str [slash # f, c] = purepath_str [c]"
    using a by (simp add: purepath_str_absolute)
  also have "\<dots> = purepath_str [slash # tl c]" using c by simp
  also have "\<dots> = slash # tl c" using a by (simp add: purepath_str_plain_absolute)
  finally show "snd (fst (register_topics cv f t st)) = c"
    using assms c by (simp add: register_topics_names)
next
  assume "plain f \<and> plain c"
  then show "snd (fst (register_topics cv f t st)) = slash # f @ slash # c"
    using assms by (simp add: register_topics_names purepath_str_plain_relative)
qed

text \<open>
  C8 (amended).  For every configuration with two directories and two topics \<open>t1\<close>, \<open>t2\<close>,
  a conversion that completes has issued exactly four \<^verbatim>\<open>create_topic\<close> requests: for each
  topic, in order, an image channel named by the topic with a single leading slash, and a
  calibration channel named by what \<^verbatim>\<open>PurePath\<close> prints for the frame id (with a leading
  slash) joined with the camera-info topic.  That name is
  \<open>"/" + frame_id(t) + "/" + camera_info_topic\<close> whenever the camera-info topic is plain
  and the frame id is not \<^verbatim>\<open>.\<close>.
\<close>

theorem two_pairs_four_channels:
  assumes "image_topic_pairs cv = [(d1, t1), (d2, t2)]"
      and "fst (convert ev cv out initial) = Inr ()"
  shows "map tm_name (created (snd (convert ev cv out initial))) =
           [slash # lstrip slash t1,
            purepath_str [slash # get_frame_id_from_topic t1, camera_info_topic cv],
            slash # lstrip slash t2,
            purepath_str [slash # get_frame_id_from_topic t2, camera_info_topic cv]] \<and>
         map tm_type (created (snd (convert ev cv out initial))) =
           [''sensor_msgs/msg/Image'', ''sensor_msgs/msg/CameraInfo'',
            ''sensor_msgs/msg/Image'', ''sensor_msgs/msg/CameraInfo''] \<and>
         (\<forall>t. plain (camera_info_topic cv) \<and> get_frame_id_from_topic t \<noteq> ''.'' \<longrightarrow>
            purepath_str [slash # get_frame_id_from_topic t, camera_info_topic cv] =
              slash # get_frame_id_from_topic t @ slash # camera_info_topic cv)"
proof -
  have rel: "purepath_str [slash # get_frame_id_from_topic t, camera_info_topic cv] =
              slash # get_frame_id_from_topic t @ slash # camera_info_topic cv"
    if "plain (camera_info_topic cv) \<and> get_frame_id_from_topic t \<noteq> ''.''" for t
  proof -
    from that frame_id_dot_or_plain [of t] have "plain (get_frame_id_from_topic t)"
      by simp
    with that show ?thesis
      by (simp only: purepath_str_plain_relative)
  qed
  have cr: "created (snd (convert ev cv out initial)) = created initial @
             [\<lparr>tm_name = slash # lstrip slash t1, tm_type = ''sensor_msgs/msg/Image'',
               serialization_format = ''cdr''\<rparr>,
              \<lparr>tm_name = purepath_str [slash # get_frame_id_from_topic t1, camera_info_topic cv],
               tm_type = ''sensor_msgs/msg/CameraInfo'', serialization_format = ''cdr''\<rparr>,
              \<lparr>tm_name = slash # lstrip slash t2, tm_type = ''sensor_msgs/msg/Image'',
               serialization_format = ''cdr''\<rparr>,
              \<lparr>tm_name = purepath_str [slash # get_frame_id_from_topic t2, camera_info_topic cv],
               tm_type = ''sensor_msgs/msg/CameraInfo'', serialization_format = ''cdr''\<rparr>]"
    using assms by (rule convert_two_pairs_created)
  have "created initial = []" by (simp add: initial_def)
  with cr have names: "map tm_name (created (snd (convert ev cv out initial))) =
           [slash # lstrip slash t1,
            purepath_str [slash # get_frame_id_from_topic t1, camera_info_topic cv],
            slash # lstrip slash t2,
            purepath_str [slash # get_frame_id_from_topic t2, camera_info_topic cv]]"
    and types: "map tm_type (created (snd (convert ev cv out initial))) =
           [''sensor_msgs/msg/Image'', ''sensor_msgs/msg/CameraInfo'',
            ''sensor_msgs/msg/Image'', ''sensor_msgs/msg/CameraInfo'']"
    by simp_all
  from names types rel show ?thesis
    by (intro conjI allI impI)
qed

theorem camera_info_channel_name_witness:
  "camera_info_topic (example_converter\<lparr>camera_info_topic := ''/tf/info''\<rparr>) = ''/tf/info'' \<and>
   (plain (tl ''/tf/info'') \<and> ''/tf/info'' \<noteq> [] \<and> hd ''/tf/info'' = slash) \<and>
   snd (fst (register_topics (example_converter\<lparr>camera_info_topic := ''/tf/info''\<rparr>)
               ''cam'' ''/cam/left'' initial)) = ''/tf/info'' \<and>
   camera_info_topic example_converter = ''camera_info'' \<and>
   (plain ''cam'' \<and> plain ''camera_info'') \<and>
   snd (fst (register_topics example_converter ''cam'' ''/cam/left'' initial)) =
     ''/cam/camera_info''"
proof -
  have h1: "camera_info_topic (example_converter\<lparr>camera_info_topic := ''/tf/info''\<rparr>) = ''/tf/info''"
    by simp
  have h2: "plain (tl ''/tf/info'') \<and> ''/tf/info'' \<noteq> [] \<and> hd ''/tf/info'' = slash"
    by (simp add: plain_def kept_def)
  have h3: "camera_info_topic example_converter = ''camera_info''"
    by (simp add: example_converter_def)
  have h4: "plain ''cam'' \<and> plain ''camera_info''"
    by (simp add: plain_def kept_def)
  note t1 = camera_info_channel_name [OF h1, of "''cam''" "''/cam/left''" initial]
  note t2 = camera_info_channel_name [OF h3, of "''cam''" "''/cam/left''" initial]
  have a: "snd (fst (register_topics (example_converter\<lparr>camera_info_topic := ''/tf/info''\<rparr>)
               ''cam'' ''/cam/left'' initial)) = ''/tf/info''"
    by (rule t1 [THEN conjunct2, THEN conjunct1, THEN mp, OF h2])
  have b: "snd (fst (register_topics example_converter ''cam'' ''/cam/left'' initial)) =
     slash # ''cam'' @ slash # ''camera_info''"
    by (rule t2 [THEN conjunct2, THEN conjunct2, THEN mp, OF h4])
  have b': "snd (fst (register_topics example_converter ''cam'' ''/cam/left'' initial)) =
     ''/cam/camera_info''"
    using b by simp
  show ?thesis
    by (intro conjI h1 h2 h3 h4 a b')
qed

text \<open>
  The claim as stated fails for topics that the command line accepts but \<^verbatim>\<open>PurePath\<close>
  normalises: \<^verbatim>\<open>/info/\<close> is registered as \<^verbatim>\<open>/info\<close>, \<^verbatim>\<open>tf//info\<close> under frame id \<^verbatim>\<open>cam\<close>
  as \<^verbatim>\<open>/cam/tf/info\<close>, and the frame id \<^verbatim>\<open>.\<close> of the topic \<^verbatim>\<open>/\<close> disappears from the name.
\<close>

theorem camera_info_channel_name_counterexample:
  "camera_info_topic_type ''/info/'' \<and>
   snd (fst (register_topics (example_converter\<lparr>camera_info_topic := ''/info/''\<rparr>)
               ''cam'' ''/cam/left'' initial)) = ''/info'' \<and>
   camera_info_topic_type ''tf//info'' \<and>
   snd (fst (register_topics (example_converter\<lparr>camera_info_topic := ''tf//info''\<rparr>)
               ''cam'' ''/cam/left'' initial)) = ''/cam/tf/info'' \<and>
   get_frame_id_from_topic ''/'' = ''.'' \<and>
   snd (fst (register_topics example_converter (get_frame_id_from_topic ''/'') ''/'' initial)) =
     ''/camera_info''"
  by code_simp

theorem two_pairs_four_channels_witness:
  "image_topic_pairs example_converter =
     [(''/data/left'', ''/cam/left''), (''/data/right'', ''/cam/right'')] \<and>
   fst (convert example_env example_converter ''out.bag'' initial) = Inr () \<and>
   map tm_name (created (snd (convert example_env example_converter ''out.bag'' initial))) =
     [slash # lstrip slash ''/cam/left'',
      purepath_str [slash # get_frame_id_from_topic ''/cam/left'',
                    camera_info_topic example_converter],
      slash # lstrip slash ''/cam/right'',
      purepath_str [slash # get_frame_id_from_topic ''/cam/right'',
                    camera_info_topic example_converter]]"
proof -
  have h1: "image_topic_pairs example_converter =
     [(''/data/left'', ''/cam/left''), (''/data/right'', ''/cam/right'')]"
    by (simp add: example_converter_def)
  note t = two_pairs_four_channels [OF h1 example_run_ok]
  show ?thesis
    by (intro conjI h1 example_run_ok t [THEN conjunct1])
qed

text \<open>
  The claim as stated fails: the calibration channel name starts with a slash, which
  \<open>frame_id(t) + "/" + camera_info_topic\<close> does not, and two topics with the same frame id
  share one calibration channel name, so that the four requests name three channels.
\<close>

theorem two_pairs_four_channels_counterexample:
  "map tm_name (created (snd (convert example_env example_converter ''out.bag'' initial))) =
     [''/cam/left'', ''/cam/camera_info'', ''/cam/right'', ''/cam/camera_info''] \<and>
   get_frame_id_from_topic ''/cam/left'' @ ''/'' @ camera_info_topic example_converter =
     ''cam/camera_info'' \<and>
   length (remdups (map tm_name
     (created (snd (convert example_env example_converter ''out.bag'' initial))))) = 3"
proof -
  have h1: "image_topic_pairs example_converter =
     [(''/data/left'', ''/cam/left''), (''/data/right'', ''/cam/right'')]"
    by (simp add: example_converter_def)
  have n1: "slash # lstrip slash ''/cam/left'' = ''/cam/left''"
           "slash # lstrip slash ''/cam/right'' = ''/cam/right''"
    by (simp_all add: lstrip_def)
  have n2: "purepath_str [slash # get_frame_id_from_topic ''/cam/left'',
                          camera_info_topic example_converter] = ''/cam/camera_info''"
           "purepath_str [slash # get_frame_id_from_topic ''/cam/right'',
                          camera_info_topic example_converter] = ''/cam/camera_info''"
    by code_simp+
  have n3: "get_frame_id_from_topic ''/cam/left'' @ ''/'' @ camera_info_topic example_converter =
     ''cam/camera_info''"
    by code_simp
  have names: "map tm_name (created (snd (convert example_env example_converter ''out.bag'' initial))) =
     [''/cam/left'', ''/cam/camera_info'', ''/cam/right'', ''/cam/camera_info'']"
    unfolding convert_two_pairs_created [OF h1 example_run_ok]
    by (simp add: initial_def n1 n2)
  show ?thesis
    unfolding names using n3 by simp
qed

text \<open>
  C6 (amended).  For every source image of positive size \<open>(W, H)\<close> and every requested
  size \<open>(w, h)\<close>: if \<open>w \<le> 0\<close> and \<open>h \<ge> 0\<close>, the size handed to Pillow is
  \<open>(\<lfloor>W h / H\<rfloor>, h)\<close>; if \<open>w > 0\<close> and \<open>h \<le> 0\<close>, it is \<open>(w, \<lfloor>H w / W\<rfloor>)\<close> (the
  product being below \<open>2\<^sup>5\<^sup>3\<close> in both cases); if both are positive, it is \<open>(w, h)\<close>; and
  when both dimensions of that size are at least one, the image is resized to it.  The
  pattern of the command line accepts no size whose width is written as the single digit
  \<^verbatim>\<open>0\<close>.  The witness covers the examples: a 1920x1080 image with the size string
  \<^verbatim>\<open>640\<close>, parsed to \<open>(640, 0)\<close>, is resized to \<open>(640, 360)\<close>, and with the size
  \<open>(0, 540)\<close> set on the converter to \<open>(960, 540)\<close>.
\<close>

theorem resize_target:
  assumes "0 < width img" and "0 < height img"
  shows "(fst sz \<le> 0 \<and> 0 \<le> snd sz \<and> width img * snd sz < 2 ^ 53 \<longrightarrow>
            img_size img sz = Inr (width img * snd sz div height img, snd sz)) \<and>
         (0 < fst sz \<and> snd sz \<le> 0 \<and> height img * fst sz < 2 ^ 53 \<longrightarrow>
            img_size img sz = Inr (fst sz, height img * fst sz div width img)) \<and>
         (0 < fst sz \<and> 0 < snd sz \<longrightarrow> img_size img sz = Inr sz) \<and>
         (\<forall>a b. img_size img sz = Inr (a, b) \<and> 1 \<le> a \<and> 1 \<le> b \<longrightarrow>
            resize_image img sz = Inr (img\<lparr>width := a, height := b\<rparr>)) \<and>
         (\<forall>s. image_size_type s \<longrightarrow> takeWhile is_digit s \<noteq> ''0'')"
proof (intro conjI impI allI)
  assume "fst sz \<le> 0 \<and> 0 \<le> snd sz \<and> width img * snd sz < 2 ^ 53"
  then show "img_size img sz = Inr (width img * snd sz div height img, snd sz)"
    using assms by (intro img_size_auto_width) simp_all
next
  assume "0 < fst sz \<and> snd sz \<le> 0 \<and> height img * fst sz < 2 ^ 53"
  then show "img_size img sz = Inr (fst sz, height img * fst sz div width img)"
    using assms by (intro img_size_auto_height) simp_all
next
  assume "0 < fst sz \<and> 0 < snd sz"
  then show "img_size img sz = Inr sz"
    by (simp add: img_size_def)
next
  fix a b
  assume "img_size img sz = Inr (a, b) \<and> 1 \<le> a \<and> 1 \<le> b"
  then show "resize_image img sz = Inr (img\<lparr>width := a, height := b\<rparr>)"
    by (simp add: resize_image_def pil_resize_def)
next
  fix s
  assume "image_size_type s"
  then show "takeWhile is_digit s \<noteq> ''0''"
    by (rule image_size_type_width)
qed

theorem resize_target_witness:
  "(0 < width \<lparr>width = 1920, height = 1080, mode = ''RGB''\<rparr> \<and>
    0 < height \<lparr>width = 1920, height = 1080, mode = ''RGB''\<rparr>) \<and>
   image_size_type ''640'' \<and> takeWhile is_digit ''640'' \<noteq> ''0'' \<and>
   parse_image_size (Some ''640'') = Inr (Some (640, 0)) \<and>
   img_size \<lparr>width = 1920, height = 1080, mode = ''RGB''\<rparr> (640, 0) = Inr (640, 360) \<and>
   resize_image \<lparr>width = 1920, height = 1080, mode = ''RGB''\<rparr> (640, 0) =
     Inr \<lparr>width = 640, height = 360, mode = ''RGB''\<rparr> \<and>
   img_size \<lparr>width = 1920, height = 1080, mode = ''RGB''\<rparr> (0, 540) = Inr (960, 540) \<and>
   resize_image \<lparr>width = 1920, height = 1080, mode = ''RGB''\<rparr> (0, 540) =
     Inr \<lparr>width = 960, height = 540, mode = ''RGB''\<rparr> \<and>
   img_size \<lparr>width = 1920, height = 1080, mode = ''RGB''\<rparr> (640, 480) = Inr (640, 480)"
proof -
  let ?img = "\<lparr>width = 1920, height = 1080, mode = ''RGB''\<rparr>"
  have h: "0 < width ?img" "0 < height ?img" by simp_all
  have p: "image_size_type ''640''"
    by (simp add: image_size_type_def zero_then_end_def zero_then_sep_def is_digit_def at_end_def)
  have q: "parse_image_size (Some ''640'') = Inr (Some (640, 0))"
    by (simp add: parse_image_size_def py_int_def is_digit_def is_sep_def int_of_digits_def
        digit_value_def)
  note t1 = resize_target [OF h, of "(640, 0)"]
  note t2 = resize_target [OF h, of "(0, 540)"]
  note t3 = resize_target [OF h, of "(640, 480)"]
  have a1: "img_size ?img (640, 0) = Inr (640, 360)"
    using t1 by simp
  have a2: "resize_image ?img (640, 0) = Inr \<lparr>width = 640, height = 360, mode = ''RGB''\<rparr>"
    using t1 a1 by simp
  have b1: "img_size ?img (0, 540) = Inr (960, 540)"
    using t2 by simp
  have b2: "resize_image ?img (0, 540) = Inr \<lparr>width = 960, height = 540, mode = ''RGB''\<rparr>"
    using t2 b1 by simp
  have c1: "img_size ?img (640, 480) = Inr (640, 480)"
    using t3 by simp
  have w: "takeWhile is_digit ''640'' \<noteq> ''0''"
    using t1 p by blast
  from h p q a1 a2 b1 b2 c1 w show ?thesis
    by (intro conjI)
qed

text \<open>
  The claim as stated fails: the size string \<^verbatim>\<open>0,540\<close> is refused by the pattern of the
  command line, and for a negative height the code truncates towards zero where the claim
  takes the floor.  (The pattern accepts \<^verbatim>\<open>00\<close>, which is parsed to \<open>(0, 0)\<close>.)
\<close>

theorem resize_target_counterexample:
  "\<not> image_size_type ''0,540'' \<and>
   img_size \<lparr>width = 1, height = 2, mode = ''RGB''\<rparr> (0, - 1) = Inr (0, - 1) \<and>
   (1::int) * (- 1) div 2 = - 1 \<and>
   image_size_type ''00'' \<and> parse_image_size (Some ''00'') = Inr (Some (0, 0))"
  by code_simp






end
